theory Spec2Isabelle
  imports Complex_Main "HOL-Library.AList"
begin

section \<open>Python exceptions\<close>

text \<open>
  Every exception the modelled code can raise is a value. A method of an object returns
  the pair of its outcome (\<open>Inl\<close> the exception, \<open>Inr\<close> the returned value) and the
  object as the call leaves it, so that the fields written before a raise stay visible.
\<close>

datatype error =
    ValueError | OverflowError | ZeroDivisionError | TypeError | KeyError | IndexError
  | AttributeError | UnboundLocalError | ConnectionError

section \<open>The AWS Braket backend (openqaoa/backends/qpus/qaoa\_braket\_qpu.py)\<close>

subsection \<open>Data\<close>

text \<open>
  \<open>measurement_counts\<close> of a Braket result: bitstring to number of shots, a Python dict.
\<close>

type_synonym counts = "(string \<times> nat) list"

text \<open>
  What \<open>job.result()\<close> gives for one submitted task: a result object carrying
  \<open>measurement_counts\<close>, or no result object, in which case reading
  \<open>.measurement_counts\<close> raises AttributeError.
\<close>

datatype job_result = MeasurementCounts counts | NoResult

text \<open>
  The cloud device is the stream of its answers: \<open>device k\<close> answers the task that is
  submitted when \<open>k\<close> tasks have been submitted before it.
\<close>

type_synonym device = "nat \<Rightarrow> job_result"

text \<open>
  A Braket \<open>Circuit\<close> is the sequence of what has been added to it with \<open>+=\<close>:
  the instructions of a user circuit or of a gate of the QAOA routine (of type \<open>'i\<close>),
  a Hadamard on a qubit, or the Probability result type.
\<close>

datatype 'i item = Instr 'i | H nat | Probability

type_synonym 'i circuit = "'i item list"

datatype free_parameter = FreeParameter string

text \<open>
  A gate of the abstract circuit: its label and its rotation angle, which is either a
  number-like value of the caller (\<open>Angle\<close>) or a Braket free parameter.
\<close>

datatype 'a angle = Angle 'a | Param free_parameter

record ('l, 'a) gate =
  pauli_label :: 'l
  rotation_angle :: "'a angle"

record ('l, 'a, 'i) backend =
  prepend_state :: "'i circuit option"
  append_state :: "'i circuit option"
  init_hadamard :: bool
  qubit_layout :: "nat list"
  abstract_circuit :: "('l, 'a) gate list"
  braket_parameter_list :: "free_parameter list"
  measurement_outcomes :: "counts option"
  tasks_submitted :: nat

subsection \<open>get\_counts\<close>

text \<open>The local variables of \<open>get_counts\<close>; \<open>counts\<close> is unbound until assigned.\<close>

record locals =
  job_state :: bool
  no_of_job_retries :: nat
  counts :: "counts option"
  submitted :: nat

definition max_job_retries :: nat where
  "max_job_retries = 5"

text \<open>
  The \<open>while job_state == False\<close> loop. One pass submits a task. When reading its counts
  succeeds, \<open>job_state\<close> is set, the retry check runs and the loop condition is tested
  again; when it raises AttributeError, the handler counts the retry and leaves the loop
  by \<open>break\<close>. The result is the raised exception, if any, and the locals.
\<close>

function get_counts_loop :: "device \<Rightarrow> locals \<Rightarrow> error option \<times> locals" where
  "get_counts_loop dev l =
     (if job_state l = False then
        (let l1 = l\<lparr>submitted := Suc (submitted l)\<rparr> in
         case dev (submitted l) of
           MeasurementCounts c \<Rightarrow>
             (let l2 = l1\<lparr>counts := Some c, job_state := True\<rparr> in
              if no_of_job_retries l2 \<ge> max_job_retries then (Some ConnectionError, l2)
              else get_counts_loop dev l2)
         | NoResult \<Rightarrow> (None, l1\<lparr>no_of_job_retries := no_of_job_retries l1 + 1\<rparr>))
      else (None, l))"
  by pat_completeness auto
termination
  by (relation "measure (\<lambda>(dev, l). if job_state l then 0 else 1)") auto

declare get_counts_loop.simps [simp del]

text \<open>
  After the loop \<open>counts\<close> is stored in \<open>self.measurement_outcomes\<close> and returned; reading
  the local while it is unbound raises UnboundLocalError. The circuit that is submitted,
  \<open>self.qaoa_circuit(params)\<close>, is the same for every pass of the loop, and what the device
  answers to it is the device's matter, so the circuit does not appear here.
\<close>

definition get_counts ::
  "device \<Rightarrow> ('l, 'a, 'i) backend \<Rightarrow> (error + counts) \<times> ('l, 'a, 'i) backend" where
  "get_counts dev b =
     (case get_counts_loop dev
             \<lparr>job_state = False, no_of_job_retries = 0, counts = None,
              submitted = tasks_submitted b\<rparr> of
        (Some e, l) \<Rightarrow> (Inl e, b\<lparr>tasks_submitted := submitted l\<rparr>)
      | (None, l) \<Rightarrow>
          (case counts l of
             None \<Rightarrow> (Inl UnboundLocalError, b\<lparr>tasks_submitted := submitted l\<rparr>)
           | Some c \<Rightarrow>
               (Inr c, b\<lparr>tasks_submitted := submitted l, measurement_outcomes := Some c\<rparr>)))"

subsection \<open>parametric\_qaoa\_circuit\<close>

text \<open>
  The gate classes are not part of this file of the repository, so they are parameters:
  \<open>str\<close> prints a label, \<open>decomposition\<close> is \<open>each_gate.decomposition('standard')\<close>, a list
  of low-level gate applications of type \<open>'t\<close>, and \<open>apply_braket_gate t c\<close> is
  \<open>t[0]().apply_braket_gate(*t[1], c)\<close>.
\<close>

text \<open>The inner loop over one decomposition.\<close>

fun apply_decomposition ::
  "('t \<Rightarrow> 'i circuit \<Rightarrow> 'i circuit) \<Rightarrow> 't list \<Rightarrow> 'i circuit \<Rightarrow> 'i circuit" where
  "apply_decomposition apply_braket_gate [] c = c"
| "apply_decomposition apply_braket_gate (t # ts) c =
     apply_decomposition apply_braket_gate ts (apply_braket_gate t c)"

text \<open>
  The loop over the abstract circuit. It threads the circuit, the parameter list and the
  gates seen so far, whose rotation angle has been overwritten with the new parameter.
\<close>

fun gates_loop ::
  "('l \<Rightarrow> string) \<Rightarrow> (('l, 'a) gate \<Rightarrow> 't list) \<Rightarrow> ('t \<Rightarrow> 'i circuit \<Rightarrow> 'i circuit) \<Rightarrow>
   ('l, 'a) gate list \<Rightarrow> 'i circuit \<times> free_parameter list \<times> ('l, 'a) gate list \<Rightarrow>
   'i circuit \<times> free_parameter list \<times> ('l, 'a) gate list" where
  "gates_loop str decomposition apply_braket_gate [] acc = acc"
| "gates_loop str decomposition apply_braket_gate (each_gate # gs) (c, ps, done) =
     (let angle_param = FreeParameter (str (pauli_label each_gate));
          ps' = ps @ [angle_param];
          each_gate' = each_gate\<lparr>rotation_angle := Param angle_param\<rparr>
      in gates_loop str decomposition apply_braket_gate gs
           (apply_decomposition apply_braket_gate (decomposition each_gate') c,
            ps', done @ [each_gate']))"

definition parametric_qaoa_circuit ::
  "('l \<Rightarrow> string) \<Rightarrow> (('l, 'a) gate \<Rightarrow> 't list) \<Rightarrow> ('t \<Rightarrow> 'i circuit \<Rightarrow> 'i circuit) \<Rightarrow>
   ('l, 'a, 'i) backend \<Rightarrow> 'i circuit \<times> ('l, 'a, 'i) backend" where
  "parametric_qaoa_circuit str decomposition apply_braket_gate b =
     (let c0 = [];
          c1 = (case prepend_state b of Some p \<Rightarrow> c0 @ p | None \<Rightarrow> c0);
          c2 = (if init_hadamard b then foldl (\<lambda>c q. c @ [H q]) c1 (qubit_layout b) else c1);
          (c3, ps, gs) = gates_loop str decomposition apply_braket_gate (abstract_circuit b)
                           (c2, [], []);
          c4 = (case append_state b of Some a \<Rightarrow> c3 @ a | None \<Rightarrow> c3);
          c5 = c4 @ [Probability]
      in (c5, b\<lparr>braket_parameter_list := ps, abstract_circuit := gs\<rparr>))"

text \<open>The parameter the loop makes for a gate, and the gate as the loop leaves it.\<close>

definition gate_parameter :: "('l \<Rightarrow> string) \<Rightarrow> ('l, 'a) gate \<Rightarrow> free_parameter" where
  "gate_parameter str g = FreeParameter (str (pauli_label g))"

definition bound_gate :: "('l \<Rightarrow> string) \<Rightarrow> ('l, 'a) gate \<Rightarrow> ('l, 'a) gate" where
  "bound_gate str g = g\<lparr>rotation_angle := Param (gate_parameter str g)\<rparr>"

text \<open>A backend to run the methods on.\<close>

definition example_backend :: "(string, int, string) backend" where
  "example_backend =
     \<lparr>prepend_state = None, append_state = None, init_hadamard = True,
      qubit_layout = [0, 1], abstract_circuit = [], braket_parameter_list = [],
      measurement_outcomes = None, tasks_submitted = 0\<rparr>"

section \<open>The bin packing problem (openqaoa/problems/binpacking.py)\<close>

subsection \<open>Data\<close>

text \<open>
  The variables of the problem are named by the formatted strings \<open>f"y_{j}"\<close> and
  \<open>f"x_{i}_{j}"\<close>, which determine and are determined by their indices: \<open>Y j\<close> is
  \<open>"y_j"\<close> and \<open>X i j\<close> is \<open>"x_i_j"\<close>, so the literal key \<open>"x_0_0"\<close> is \<open>X 0 0\<close>.
\<close>

datatype var = Y nat | X nat nat

text \<open>
  A Python dict keeps its keys in insertion order: an association list with distinct
  keys, where \<open>d[k] = v\<close> is \<open>AList.update k v d\<close> (in place for a key that is there, at
  the end for a new one) and \<open>d[k]\<close> raises KeyError for a missing key.
\<close>

definition getitem :: "('k \<times> 'v) list \<Rightarrow> 'k \<Rightarrow> error + 'v" where
  "getitem d k = (case map_of d k of None \<Rightarrow> Inl KeyError | Some v \<Rightarrow> Inr v)"

text \<open>Reading an attribute that has not been assigned raises AttributeError.\<close>

definition attribute :: "'a option \<Rightarrow> error + 'a" where
  "attribute a = (case a of None \<Rightarrow> Inl AttributeError | Some v \<Rightarrow> Inr v)"

text \<open>\<open>xs[i]\<close> on a list or string, for an integer index: negative indices count from the end.\<close>

definition index :: "'a list \<Rightarrow> int \<Rightarrow> error + 'a" where
  "index xs i =
     (let n = int (length xs); j = (if i < 0 then n + i else i)
      in if 0 \<le> j \<and> j < n then Inr (xs ! nat j) else Inl IndexError)"

text \<open>A list comprehension whose element expression can raise: the first exception ends it.\<close>

fun comprehension :: "('a \<Rightarrow> error + 'b) \<Rightarrow> 'a list \<Rightarrow> error + 'b list" where
  "comprehension f [] = Inr []"
| "comprehension f (x # xs) =
     (case f x of
        Inl e \<Rightarrow> Inl e
      | Inr y \<Rightarrow> (case comprehension f xs of Inl e \<Rightarrow> Inl e | Inr ys \<Rightarrow> Inr (y # ys)))"

text \<open>A \<open>for\<close> loop whose body updates a state and can raise.\<close>

fun for_each :: "('a \<Rightarrow> 's \<Rightarrow> error option \<times> 's) \<Rightarrow> 'a list \<Rightarrow> 's \<Rightarrow> error option \<times> 's" where
  "for_each body [] s = (None, s)"
| "for_each body (x # xs) s =
     (case body x s of (Some e, s') \<Rightarrow> (Some e, s') | (None, s') \<Rightarrow> for_each body xs s')"

text \<open>
  The solution dictionary: a variable is fixed to a value or still free (\<open>None\<close>).
\<close>

type_synonym solution = "(var \<times> int option) list"

text \<open>
  The docplex model, as far as this file drives it: the binary variables in the order of
  their creation (the order of \<open>iter_binary_vars\<close>), the summands of the objective, and
  the constraints added. An entry of \<open>vars_\<close> is a variable of the model or the fixed
  value of the solution dictionary.
\<close>

datatype operand = BinaryVar var | Fixed int

datatype linear_constraint =
    SumEq "operand list" int
  | WeightedSumLe "(rat \<times> operand) list" operand

record model =
  binary_vars :: "var list"
  objective :: "operand list"
  constraints :: "linear_constraint list"

definition number_of_binary_variables :: "model \<Rightarrow> nat" where
  "number_of_binary_variables mdl = length (binary_vars mdl)"

text \<open>
  A recorded constraint \<open>[[positions], [right-hand side]]\<close>. The right-hand side holds a
  number, or for a bin that is not known to be used the position of its variable \<open>y_j\<close>.
\<close>

type_synonym recorded = "nat list \<times> int list"

text \<open>The penalty argument is a float or a list of floats.\<close>

datatype penalty = Number real | Sequence "real list"

text \<open>
  The instance. \<open>eq_constraints\<close> and \<open>ineq_constraints\<close> are keyed by \<open>f"eq_{i}"\<close> and
  \<open>f"ineq_{j}"\<close>, here by the index. The last five attributes are assigned only by some
  methods and are absent (\<open>None\<close>) before. Sizes are natural numbers.
\<close>

record BinPacking =
  weights :: "int list"
  weight_capacity :: int
  penalty :: penalty
  n_items :: nat
  n_bins :: nat
  "method" :: string
  simplifications :: bool
  eq_constraints :: "(nat \<times> recorded) list"
  ineq_constraints :: "(nat \<times> recorded) list"
  min_bins :: "int option"
  solution :: "solution option"
  vars_pos :: "(var \<times> nat) list option"
  cplex_model :: "model option"
  n_vars :: "nat option"

subsection \<open>solution\_dict\<close>

text \<open>
  \<open>int(np.ceil(np.sum(self.weights) / self.weight_capacity))\<close>. The sum is a numpy scalar,
  so a zero divisor does not raise at the division: the quotient is \<open>nan\<close> for \<open>0 / 0\<close>
  and infinite otherwise, and \<open>int\<close> raises ValueError on the first and OverflowError on
  the second. For a non-zero divisor the quotient is taken exactly.
\<close>

definition compute_min_bins :: "int list \<Rightarrow> int \<Rightarrow> error + int" where
  "compute_min_bins ws cap =
     (if cap = 0 then (if sum_list ws = 0 then Inl ValueError else Inl OverflowError)
      else Inr \<lceil>(of_int (sum_list ws) :: rat) / of_int cap\<rceil>)"

definition solution_dict :: "BinPacking \<Rightarrow> (error + solution) \<times> BinPacking" where
  "solution_dict b =
     (let s0 = map (\<lambda>i. (Y i, None)) [0..<n_bins b];
          s1 = fold (\<lambda>i. fold (\<lambda>j. AList.update (X i j) None) [0..<n_bins b])
                 [0..<n_items b] s0
      in if simplifications b then
           (case compute_min_bins (weights b) (weight_capacity b) of
              Inl e \<Rightarrow> (Inl e, b)
            | Inr m \<Rightarrow>
                (let s2 = fold (\<lambda>j s. if int j < m then AList.update (Y j) (Some 1) s else s)
                            [0..<n_bins b] s1;
                     s3 = AList.update (X 0 0) (Some 1) s2;
                     s4 = fold (\<lambda>j. AList.update (X 0 j) (Some 0)) [1..<n_bins b] s3
                 in (Inr s4, b\<lparr>min_bins := Some m\<rparr>)))
         else (Inr s1, b))"

subsection \<open>docplex\_model\<close>

definition list_items :: "BinPacking \<Rightarrow> nat list" where
  "list_items b = (if simplifications b then [1..<n_items b] else [0..<n_items b])"

text \<open>The body of the first loop: the constraint that item \<open>i\<close> is in one bin.\<close>

definition eq_body ::
  "(var \<times> operand) list \<Rightarrow> (var \<times> nat) list \<Rightarrow> nat \<Rightarrow> model \<times> BinPacking \<Rightarrow>
   error option \<times> model \<times> BinPacking" where
  "eq_body vars pos i = (\<lambda>(mdl, b).
     case comprehension (\<lambda>j. getitem pos (X i j)) [0..<n_bins b] of
       Inl e \<Rightarrow> (Some e, mdl, b)
     | Inr ps \<Rightarrow>
         (let b' = b\<lparr>eq_constraints := AList.update i (ps, [1]) (eq_constraints b)\<rparr> in
          case comprehension (\<lambda>j. getitem vars (X i j)) [0..<n_bins b'] of
            Inl e \<Rightarrow> (Some e, mdl, b')
          | Inr xs \<Rightarrow> (None, mdl\<lparr>constraints := constraints mdl @ [SumEq xs 1]\<rparr>, b')))"

text \<open>
  One summand \<open>(self.weights[i]/self.weight_capacity) * vars_[f"x_{i}_{j}"]\<close> of the
  weight constraint of bin \<open>j\<close>. The weights are Python integers, as the class documents
  them, so that the division raises ZeroDivisionError for a weight capacity of 0.
\<close>

definition weight_term ::
  "BinPacking \<Rightarrow> (var \<times> operand) list \<Rightarrow> nat \<Rightarrow> nat \<Rightarrow> error + rat \<times> operand" where
  "weight_term b vars j i =
     (case index (weights b) (int i) of
        Inl e \<Rightarrow> Inl e
      | Inr w \<Rightarrow>
          if weight_capacity b = 0 then Inl ZeroDivisionError
          else (case getitem vars (X i j) of
                  Inl e \<Rightarrow> Inl e
                | Inr x \<Rightarrow> Inr (of_int w / of_int (weight_capacity b), x)))"

text \<open>The right-hand side recorded for bin \<open>j\<close>, after the positions have been collected.\<close>

definition ineq_rhs :: "BinPacking \<Rightarrow> (var \<times> nat) list \<Rightarrow> nat \<Rightarrow> bool \<Rightarrow> error + int list" where
  "ineq_rhs b pos j known =
     (if known then
        (if j = 0 then
           (case index (weights b) 0 of
              Inl e \<Rightarrow> Inl e
            | Inr w0 \<Rightarrow> Inr [weight_capacity b - w0])
         else Inr [weight_capacity b])
      else (case getitem pos (Y j) of Inl e \<Rightarrow> Inl e | Inr p \<Rightarrow> Inr [int p]))"

text \<open>The body of the second loop: the weight constraint of bin \<open>j\<close>.\<close>

definition ineq_body ::
  "(var \<times> operand) list \<Rightarrow> (var \<times> nat) list \<Rightarrow> nat \<Rightarrow> model \<times> BinPacking \<Rightarrow>
   error option \<times> model \<times> BinPacking" where
  "ineq_body vars pos j = (\<lambda>(mdl, b).
     case comprehension (weight_term b vars j) [0..<n_items b] of
       Inl e \<Rightarrow> (Some e, mdl, b)
     | Inr ts \<Rightarrow>
         (case getitem vars (Y j) of
            Inl e \<Rightarrow> (Some e, mdl, b)
          | Inr y \<Rightarrow>
              (let mdl' = mdl\<lparr>constraints := constraints mdl @ [WeightedSumLe ts y]\<rparr> in
               case (if simplifications b
                     then (case attribute (min_bins b) of
                             Inl e \<Rightarrow> Inl e
                           | Inr m \<Rightarrow> Inr (int j < m))
                     else Inr False) of
                 Inl e \<Rightarrow> (Some e, mdl', b)
               | Inr known \<Rightarrow>
                   (case comprehension (\<lambda>i. getitem pos (X i j)) (list_items b) of
                      Inl e \<Rightarrow> (Some e, mdl', b)
                    | Inr ps \<Rightarrow>
                        (case ineq_rhs b pos j known of
                           Inl e \<Rightarrow> (Some e, mdl', b)
                         | Inr rhs \<Rightarrow>
                             (None, mdl',
                              b\<lparr>ineq_constraints :=
                                  AList.update j (ps, rhs) (ineq_constraints b)\<rparr>))))))"

definition docplex_model :: "BinPacking \<Rightarrow> (error + model) \<times> BinPacking" where
  "docplex_model b =
     (case attribute (solution b) of
        Inl e \<Rightarrow> (Inl e, b)
      | Inr sol \<Rightarrow>
          (let created = map fst (filter (\<lambda>(v, val). val = None) sol);
               vars = map (\<lambda>(v, val). (v, case val of None \<Rightarrow> BinaryVar v | Some n \<Rightarrow> Fixed n))
                        sol;
               obj = map snd (filter (\<lambda>(v, x). case v of Y j \<Rightarrow> True | X i j \<Rightarrow> False) vars);
               pos = zip created [0..<length created];
               b1 = b\<lparr>vars_pos := Some pos\<rparr>;
               mdl = \<lparr>binary_vars = created, objective = obj, constraints = []\<rparr>
           in case for_each (eq_body vars pos) (list_items b1) (mdl, b1) of
                (Some e, mdl2, b2) \<Rightarrow> (Inl e, b2)
              | (None, mdl2, b2) \<Rightarrow>
                  (case for_each (ineq_body vars pos) [0..<n_bins b2] (mdl2, b2) of
                     (Some e, mdl3, b3) \<Rightarrow> (Inl e, b3)
                   | (None, mdl3, b3) \<Rightarrow> (Inr mdl3, b3))))"

subsection \<open>The constructor and random\_instance\<close>

text \<open>
  The three statements that end both the constructor and \<open>random_instance\<close>.
\<close>

definition build :: "BinPacking \<Rightarrow> error option \<times> BinPacking" where
  "build b =
     (case solution_dict b of
        (Inl e, b1) \<Rightarrow> (Some e, b1)
      | (Inr s, b1) \<Rightarrow>
          (case docplex_model (b1\<lparr>solution := Some s\<rparr>) of
             (Inl e, b2) \<Rightarrow> (Some e, b2)
           | (Inr mdl, b2) \<Rightarrow>
               (None, b2\<lparr>cplex_model := Some mdl,
                         n_vars := Some (number_of_binary_variables mdl)\<rparr>)))"

definition init ::
  "int list \<Rightarrow> int \<Rightarrow> penalty \<Rightarrow> nat option \<Rightarrow> bool \<Rightarrow> string \<Rightarrow> error option \<times> BinPacking" where
  "init ws cap pen bins simp meth =
     (let b = \<lparr>weights = ws, weight_capacity = cap, penalty = pen, n_items = length ws,
               n_bins = (case bins of None \<Rightarrow> length ws | Some n \<Rightarrow> n),
               method = meth, simplifications = simp,
               eq_constraints = [], ineq_constraints = [], min_bins = None,
               solution = None, vars_pos = None, cplex_model = None, n_vars = None\<rparr>
      in if length ws > 0 then build b else (None, b))"

text \<open>
  \<open>np.random.seed(seed)\<close> followed by \<open>np.random.randint(min_weight, max_weight, n_items)\<close>
  draws \<open>n_items\<close> numbers that the seed and the bounds determine: \<open>rng seed lo hi k\<close> is
  the \<open>k\<close>-th of them.
\<close>

definition random_instance ::
  "(nat \<Rightarrow> int \<Rightarrow> int \<Rightarrow> nat \<Rightarrow> int) \<Rightarrow> BinPacking \<Rightarrow> nat \<Rightarrow> int \<Rightarrow> int \<Rightarrow> int \<Rightarrow> bool \<Rightarrow> nat \<Rightarrow>
   error option \<times> BinPacking" where
  "random_instance rng b items min_weight max_weight cap simplification seed =
     (let b1 = b\<lparr>weight_capacity := cap, n_items := items, n_bins := items\<rparr>
      in if min_weight \<ge> max_weight then (Some ValueError, b1)
         else build (b1\<lparr>weights := map (rng seed min_weight max_weight) [0..<items],
                         simplifications := simplification\<rparr>))"

subsection \<open>get\_qubo\_problem\<close>

text \<open>
  \<open>FromDocplex2IsingModel\<close> is not in this file of the repository. A call of it is the
  model and the keyword arguments that are passed (\<open>None\<close> for one that is left to its
  default); the parameter \<open>ising_model\<close> of \<open>get_qubo_problem\<close> stands for the converter
  followed by the read of \<open>.ising_model\<close>, and may raise.
\<close>

record converter_call =
  mdl :: model
  multipliers :: "penalty option"
  unbalanced_const :: "bool option"
  strength_ineq :: "penalty option"

text \<open>
  \<open>len(self.penalty)\<close> raises TypeError for a float. For a list, \<open>self.penalty[0]\<close> is
  read only when the list is not empty.
\<close>

definition get_qubo_problem ::
  "(converter_call \<Rightarrow> error + 'q) \<Rightarrow> BinPacking \<Rightarrow> error + 'q" where
  "get_qubo_problem ising_model b =
     (case penalty b of
        Number x \<Rightarrow> Inl TypeError
      | Sequence ps \<Rightarrow>
          if length ps > 0 then
            (if method b = ''slack'' then
               (case attribute (cplex_model b) of
                  Inl e \<Rightarrow> Inl e
                | Inr m \<Rightarrow>
                    ising_model \<lparr>mdl = m, multipliers = Some (Sequence ps),
                                 unbalanced_const = None, strength_ineq = None\<rparr>)
             else if method b = ''unbalanced'' then
               (case attribute (cplex_model b) of
                  Inl e \<Rightarrow> Inl e
                | Inr m \<Rightarrow>
                    ising_model \<lparr>mdl = m, multipliers = Some (Number (hd ps)),
                                 unbalanced_const = Some True,
                                 strength_ineq = Some (Sequence (tl ps))\<rparr>)
             else Inl UnboundLocalError)
          else
            (if method b = ''slack'' then
               (case attribute (cplex_model b) of
                  Inl e \<Rightarrow> Inl e
                | Inr m \<Rightarrow>
                    ising_model \<lparr>mdl = m, multipliers = None,
                                 unbalanced_const = None, strength_ineq = None\<rparr>)
             else if method b = ''unbalanced'' then
               (case attribute (cplex_model b) of
                  Inl e \<Rightarrow> Inl e
                | Inr m \<Rightarrow>
                    ising_model \<lparr>mdl = m, multipliers = None,
                                 unbalanced_const = Some True, strength_ineq = None\<rparr>)
             else Inl UnboundLocalError))"

subsection \<open>constraints\_not\_fulfilled\<close>

text \<open>\<open>int(c)\<close> for a character of the solution string.\<close>

definition int_of_char :: "char \<Rightarrow> error + int" where
  "int_of_char c =
     (let k = (of_char c :: nat) in if 48 \<le> k \<and> k \<le> 57 then Inr (int k - 48) else Inl ValueError)"

text \<open>
  numpy, on one-dimensional arrays. \<open>vec[idx] = v\<close> for a number \<open>v\<close> and
  \<open>vec[idx] = vals\<close> for a list of index positions: the values must be as many as the
  positions or a single one, and every position must be inside the array. A product of
  two arrays is taken element by element when the lengths agree, and an array of length
  one is stretched to the other.
\<close>

definition assign_scalar :: "int list \<Rightarrow> nat list \<Rightarrow> int \<Rightarrow> error + int list" where
  "assign_scalar vec idx v =
     (if list_ex (\<lambda>i. i \<ge> length vec) idx then Inl IndexError
      else Inr (fold (\<lambda>i a. a[i := v]) idx vec))"

definition assign :: "int list \<Rightarrow> nat list \<Rightarrow> int list \<Rightarrow> error + int list" where
  "assign vec idx vals =
     (if length vals \<noteq> length idx \<and> length vals \<noteq> 1 then Inl ValueError
      else if list_ex (\<lambda>i. i \<ge> length vec) idx then Inl IndexError
      else if length vals = length idx then Inr (fold (\<lambda>(i, v) a. a[i := v]) (zip idx vals) vec)
      else Inr (fold (\<lambda>i a. a[i := hd vals]) idx vec))"

definition multiply :: "int list \<Rightarrow> int list \<Rightarrow> error + int list" where
  "multiply xs ys =
     (if length xs = length ys then Inr (map2 (*) xs ys)
      else if length xs = 1 then Inr (map ((*) (hd xs)) ys)
      else if length ys = 1 then Inr (map (\<lambda>x. x * hd ys) xs)
      else Inl ValueError)"

text \<open>
  \<open>np.sum(vec * np.array([int(i) for i in solution]))\<close>: the left-hand side of a constraint.
\<close>

definition left_hand_side :: "int list \<Rightarrow> string \<Rightarrow> error + int" where
  "left_hand_side vec sol =
     (case comprehension int_of_char sol of
        Inl e \<Rightarrow> Inl e
      | Inr bits \<Rightarrow> (case multiply vec bits of Inl e \<Rightarrow> Inl e | Inr p \<Rightarrow> Inr (sum_list p)))"

text \<open>The body of the loop over the equality constraints; it returns the new \<open>check\<close>.\<close>

definition eq_check :: "BinPacking \<Rightarrow> string \<Rightarrow> recorded \<Rightarrow> nat \<Rightarrow> error + nat" where
  "eq_check b sol con check =
     (case attribute (n_vars b) of
        Inl e \<Rightarrow> Inl e
      | Inr n \<Rightarrow>
          (case assign_scalar (replicate n 0) (fst con) 1 of
             Inl e \<Rightarrow> Inl e
           | Inr vec \<Rightarrow>
               (case left_hand_side vec sol of
                  Inl e \<Rightarrow> Inl e
                | Inr lh \<Rightarrow>
                    (case index (snd con) 0 of
                       Inl e \<Rightarrow> Inl e
                     | Inr r \<Rightarrow> Inr (if lh \<noteq> r then check + 1 else check)))))"

text \<open>
  The weights and the right-hand side the loop over the inequality constraints takes for
  the \<open>ii\<close>-th of them. Without simplifications the code indexes the solution string with
  the list \<open>constraint[1]\<close>, which raises TypeError.
\<close>

definition ineq_sides ::
  "BinPacking \<Rightarrow> string \<Rightarrow> nat \<Rightarrow> recorded \<Rightarrow> error + int list \<times> int" where
  "ineq_sides b sol ii con =
     (if simplifications b then
        (case attribute (min_bins b) of
           Inl e \<Rightarrow> Inl e
         | Inr m \<Rightarrow>
             (case index (snd con) 0 of
                Inl e \<Rightarrow> Inl e
              | Inr r \<Rightarrow>
                  if int ii < m then Inr (drop 1 (weights b), r)
                  else (case index sol r of
                          Inl e \<Rightarrow> Inl e
                        | Inr c \<Rightarrow>
                            (case int_of_char c of
                               Inl e \<Rightarrow> Inl e
                             | Inr y \<Rightarrow> Inr (drop 1 (weights b), weight_capacity b * y)))))
      else Inl TypeError)"

definition ineq_check :: "BinPacking \<Rightarrow> string \<Rightarrow> nat \<times> recorded \<Rightarrow> nat \<Rightarrow> error + nat" where
  "ineq_check b sol = (\<lambda>(ii, con) check.
     case attribute (n_vars b) of
       Inl e \<Rightarrow> Inl e
     | Inr n \<Rightarrow>
         (case ineq_sides b sol ii con of
            Inl e \<Rightarrow> Inl e
          | Inr (ws, rhs) \<Rightarrow>
              (case assign (replicate n 0) (fst con) ws of
                 Inl e \<Rightarrow> Inl e
               | Inr vec \<Rightarrow>
                   (case left_hand_side vec sol of
                      Inl e \<Rightarrow> Inl e
                    | Inr lh \<Rightarrow> Inr (if lh > rhs then check + 1 else check)))))"

fun check_loop :: "('a \<Rightarrow> nat \<Rightarrow> error + nat) \<Rightarrow> 'a list \<Rightarrow> nat \<Rightarrow> error + nat" where
  "check_loop body [] check = Inr check"
| "check_loop body (c # cs) check =
     (case body c check of Inl e \<Rightarrow> Inl e | Inr check' \<Rightarrow> check_loop body cs check')"

definition constraints_not_fulfilled :: "BinPacking \<Rightarrow> string \<Rightarrow> error + nat" where
  "constraints_not_fulfilled b sol =
     (case check_loop (eq_check b sol) (map snd (eq_constraints b)) 0 of
        Inl e \<Rightarrow> Inl e
      | Inr check \<Rightarrow>
          check_loop (ineq_check b sol) (enumerate 0 (map snd (ineq_constraints b))) check)"

subsection \<open>Histories of an instance\<close>

text \<open>
  A call of \<open>random_instance\<close> with its arguments. A call that raises leaves the instance
  as it was at the raise, and the caller can go on using it: \<open>after_calls\<close> is the
  instance after a sequence of calls, whether they returned or raised, and
  \<open>some_call_returned\<close> tells whether one of them returned.
\<close>

record call =
  call_n_items :: nat
  call_min_weight :: int
  call_max_weight :: int
  call_weight_capacity :: int
  call_simplification :: bool
  call_seed :: nat

definition run_call ::
  "(nat \<Rightarrow> int \<Rightarrow> int \<Rightarrow> nat \<Rightarrow> int) \<Rightarrow> BinPacking \<Rightarrow> call \<Rightarrow> error option \<times> BinPacking" where
  "run_call rng b c =
     random_instance rng b (call_n_items c) (call_min_weight c) (call_max_weight c)
       (call_weight_capacity c) (call_simplification c) (call_seed c)"

fun after_calls ::
  "(nat \<Rightarrow> int \<Rightarrow> int \<Rightarrow> nat \<Rightarrow> int) \<Rightarrow> BinPacking \<Rightarrow> call list \<Rightarrow> BinPacking" where
  "after_calls rng b [] = b"
| "after_calls rng b (c # cs) = after_calls rng (snd (run_call rng b c)) cs"

fun some_call_returned ::
  "(nat \<Rightarrow> int \<Rightarrow> int \<Rightarrow> nat \<Rightarrow> int) \<Rightarrow> BinPacking \<Rightarrow> call list \<Rightarrow> bool" where
  "some_call_returned rng b [] = False"
| "some_call_returned rng b (c # cs) =
     (fst (run_call rng b c) = None \<or> some_call_returned rng (snd (run_call rng b c)) cs)"

text \<open>The attributes \<open>solution\<close>, \<open>cplex_model\<close> and \<open>n_vars\<close> all exist.\<close>

definition built :: "BinPacking \<Rightarrow> bool" where
  "built b = (solution b \<noteq> None \<and> cplex_model b \<noteq> None \<and> n_vars b \<noteq> None)"

text \<open>
  The invariant of the three attributes: \<open>cplex_model\<close> and \<open>n_vars\<close> are assigned
  together, after \<open>solution\<close>, and \<open>n_vars\<close> counts the binary variables of the model.
\<close>

definition consistent :: "BinPacking \<Rightarrow> bool" where
  "consistent b =
     (case cplex_model b of
        None \<Rightarrow> n_vars b = None
      | Some m \<Rightarrow> solution b \<noteq> None \<and> n_vars b = Some (number_of_binary_variables m))"

text \<open>An instance without the three attributes that \<open>docplex_model\<close> writes.\<close>

definition core :: "BinPacking \<Rightarrow> BinPacking" where
  "core b = b\<lparr>vars_pos := None, eq_constraints := [], ineq_constraints := []\<rparr>"

subsection \<open>The solution dictionary in closed form\<close>

text \<open>
  The keys of the solution dictionary in the order of their insertion, and the value each
  has after the simplifications when \<open>m\<close> is the minimum number of bins.
\<close>

definition variables :: "nat \<Rightarrow> nat \<Rightarrow> var list" where
  "variables bins items =
     map Y [0..<bins] @ concat (map (\<lambda>i. map (X i) [0..<bins]) [0..<items])"

fun simplified :: "int \<Rightarrow> var \<Rightarrow> int option" where
  "simplified m (Y j) = (if int j < m then Some 1 else None)"
| "simplified m (X i j) = (if i = 0 then Some (if j = 0 then 1 else 0) else None)"

subsection \<open>The recorded constraints in closed form\<close>

text \<open>
  \<open>position xs v\<close> is the index of the first \<open>v\<close> in \<open>xs\<close>: the value of
  \<open>self.vars_pos\<close> for a binary variable, when \<open>xs\<close> lists the binary variables in the
  order of their creation. \<open>operand_of g v\<close> is the entry of \<open>vars_\<close> for a variable whose
  value in the solution dictionary is \<open>g v\<close>. \<open>eq_row\<close> and \<open>ineq_row\<close> are what
  \<open>docplex_model\<close> records for an item and for a bin, \<open>weight_constraint\<close> is the
  constraint it adds to the model for a bin, and \<open>recordable\<close> collects what the body of
  the second loop needs to run without raising.
\<close>

definition position :: "'a list \<Rightarrow> 'a \<Rightarrow> nat" where
  "position xs v = length (takeWhile (\<lambda>x. x \<noteq> v) xs)"

definition operand_of :: "(var \<Rightarrow> int option) \<Rightarrow> var \<Rightarrow> operand" where
  "operand_of g v = (case g v of None \<Rightarrow> BinaryVar v | Some n \<Rightarrow> Fixed n)"

definition eq_row :: "var list \<Rightarrow> nat \<Rightarrow> nat \<Rightarrow> recorded" where
  "eq_row created bins i = (map (\<lambda>j. position created (X i j)) [0..<bins], [1])"

definition ineq_row :: "var list \<Rightarrow> BinPacking \<Rightarrow> nat \<Rightarrow> recorded" where
  "ineq_row created b j =
     (map (\<lambda>i. position created (X i j)) (list_items b),
      if simplifications b \<and> int j < the (min_bins b)
      then (if j = 0 then [weight_capacity b - hd (weights b)] else [weight_capacity b])
      else [int (position created (Y j))])"

definition weight_constraint :: "BinPacking \<Rightarrow> (var \<Rightarrow> operand) \<Rightarrow> nat \<Rightarrow> linear_constraint" where
  "weight_constraint b h j =
     WeightedSumLe
       (map (\<lambda>i. (of_int (weights b ! i) / of_int (weight_capacity b), h (X i j))) [0..<n_items b])
       (h (Y j))"

definition recordable :: "BinPacking \<Rightarrow> var list \<Rightarrow> var list \<Rightarrow> nat \<Rightarrow> bool" where
  "recordable b vs created j =
     ((\<forall>i<n_items b. X i j \<in> set vs) \<and> n_items b \<le> length (weights b) \<and>
      (0 < n_items b \<longrightarrow> weight_capacity b \<noteq> 0) \<and> Y j \<in> set vs \<and>
      (simplifications b \<longrightarrow> min_bins b \<noteq> None) \<and>
      (\<forall>i\<in>set (list_items b). X i j \<in> set created) \<and>
      (if simplifications b \<and> int j < the (min_bins b) then j = 0 \<longrightarrow> weights b \<noteq> []
       else Y j \<in> set created))"

subsection \<open>The number of violated constraints\<close>

text \<open>
  What \<open>constraints_not_fulfilled\<close> is to count, stated from the constraints themselves
  and not from the code of the method.
  A bitstring gives one character, \<open>0\<close> or \<open>1\<close>, to each binary variable of the model, at
  the variable's position in \<open>self.vars_pos\<close>: \<open>value_in b sol v\<close> is the value of the
  variable \<open>v\<close>. The equality constraint of an item asks that the variables \<open>x_i_j\<close> of the
  item sum to 1 over the bins. The inequality constraint of a bin asks that the weights of
  the items placed in it (those of \<open>list_items\<close>; with simplifications item 0 is fixed in
  bin 0) do not exceed the capacity recorded for the bin: the weight capacity less the
  weight of item 0 for bin 0 and the weight capacity for the other bins known to be used,
  and for any other bin the weight capacity if the bitstring uses the bin and 0 if not.
  \<open>violated\<close> is the number of violated constraints.
\<close>

definition bitstring :: "string \<Rightarrow> bool" where
  "bitstring sol = list_all (\<lambda>c. c = CHR ''0'' \<or> c = CHR ''1'') sol"

definition bit_at :: "string \<Rightarrow> nat \<Rightarrow> int" where
  "bit_at sol p = (if sol ! p = CHR ''1'' then 1 else 0)"

definition value_in :: "BinPacking \<Rightarrow> string \<Rightarrow> var \<Rightarrow> int" where
  "value_in b sol v =
     (case vars_pos b of
        None \<Rightarrow> 0
      | Some pos \<Rightarrow> (case map_of pos v of None \<Rightarrow> 0 | Some p \<Rightarrow> bit_at sol p))"

definition item_sum :: "BinPacking \<Rightarrow> string \<Rightarrow> nat \<Rightarrow> int" where
  "item_sum b sol i = (\<Sum>j\<leftarrow>[0..<n_bins b]. value_in b sol (X i j))"

definition bin_weight :: "BinPacking \<Rightarrow> string \<Rightarrow> nat \<Rightarrow> int" where
  "bin_weight b sol j = (\<Sum>i\<leftarrow>list_items b. weights b ! i * value_in b sol (X i j))"

definition bin_capacity :: "BinPacking \<Rightarrow> string \<Rightarrow> nat \<Rightarrow> int" where
  "bin_capacity b sol j =
     (if simplifications b \<and> int j < the (min_bins b)
      then (if j = 0 then weight_capacity b - hd (weights b) else weight_capacity b)
      else weight_capacity b * value_in b sol (Y j))"

definition violated :: "BinPacking \<Rightarrow> string \<Rightarrow> nat" where
  "violated b sol =
     length (filter (\<lambda>i. item_sum b sol i \<noteq> 1) (list_items b)) +
     length (filter (\<lambda>j. bin_weight b sol j > bin_capacity b sol j) [0..<n_bins b])"

text \<open>
  The state in which the constructor leaves an instance with simplifications: what
  \<open>docplex_model\<close> has recorded, \<open>m\<close> being the minimum number of bins and \<open>created\<close> the
  binary variables in the order of their creation.
\<close>

definition recorded_simplified :: "BinPacking \<Rightarrow> int \<Rightarrow> var list \<Rightarrow> bool" where
  "recorded_simplified b m created \<longleftrightarrow>
     simplifications b \<and> min_bins b = Some m \<and> n_items b = length (weights b) \<and>
     0 < n_items b \<and>
     created = filter (\<lambda>v. simplified m v = None) (variables (n_bins b) (n_items b)) \<and>
     n_vars b = Some (length created) \<and>
     vars_pos b = Some (zip created [0..<length created]) \<and>
     eq_constraints b = map (\<lambda>i. (i, eq_row created (n_bins b) i)) [1..<n_items b] \<and>
     ineq_constraints b = map (\<lambda>j. (j, ineq_row created b j)) [0..<n_bins b]"

subsection \<open>classical\_solution\<close>






subsection \<open>find\_penalty\_terms\<close>

text \<open>
  The result of \<open>lowest_cost_bitstrings\<close>, as far as it is read: the bitstrings and their
  probabilities.
\<close>

record qaoa_results =
  solutions_bitstrings :: "string list"
  probabilities :: "real list"

text \<open>
  What \<open>get_penalty\<close> returns: a number, or with \<open>callback=True\<close> a dictionary, whose
  keys \<open>"result"\<close>, \<open>"pos"\<close>, \<open>"CoP"\<close>, \<open>"probability"\<close>, \<open>"n_vars"\<close>, \<open>"x0"\<close> and
  \<open>"constraints_not_fulfilled"\<close> are the fields here.
\<close>

record callback =
  cb_result :: qaoa_results
  cb_pos :: nat
  cb_CoP :: real
  cb_probability :: real
  cb_n_vars :: nat
  cb_x0 :: "real list"
  cb_constraints_not_fulfilled :: nat

datatype objective = Value real | Callback callback











subsection \<open>Instances to run the methods on\<close>

text \<open>A generator whose every draw is the lower bound.\<close>

definition lowest_draws :: "nat \<Rightarrow> int \<Rightarrow> int \<Rightarrow> nat \<Rightarrow> int" where
  "lowest_draws seed lo hi k = lo"

definition slack_instance :: BinPacking where
  "slack_instance = snd (init [2, 3, 4] 5 (Sequence []) None True ''slack'')"

definition unbalanced_instance :: BinPacking where
  "unbalanced_instance = snd (init [2, 3] 5 (Sequence [1, 2, 3]) None False ''unbalanced'')"

definition other_instance :: BinPacking where
  "other_instance = snd (init [2, 3, 4] 5 (Sequence []) None True ''other'')"

definition empty_instance :: BinPacking where
  "empty_instance = snd (init [] 0 (Sequence []) None True ''slack'')"


definition raising_call :: call where
  "raising_call =
     \<lparr>call_n_items = 3, call_min_weight = 5, call_max_weight = 5,
      call_weight_capacity = 10, call_simplification = True, call_seed = 1\<rparr>"

definition returning_call :: call where
  "returning_call =
     \<lparr>call_n_items = 3, call_min_weight = 1, call_max_weight = 5,
      call_weight_capacity = 10, call_simplification = True, call_seed = 1\<rparr>"


section \<open>Properties of the Braket backend\<close>

lemma get_counts_loop_success:
  assumes "dev (submitted l) = MeasurementCounts c" "job_state l = False"
    "no_of_job_retries l < max_job_retries"
  shows "get_counts_loop dev l =
    (None, l\<lparr>submitted := Suc (submitted l), counts := Some c, job_state := True\<rparr>)"
proof -
  let ?l2 = "l\<lparr>submitted := Suc (submitted l), counts := Some c, job_state := True\<rparr>"
  have "get_counts_loop dev l = get_counts_loop dev ?l2"
    using assms by (subst get_counts_loop.simps) simp
  also have "\<dots> = (None, ?l2)"
    by (subst get_counts_loop.simps) simp
  finally show ?thesis .
qed

lemma get_counts_loop_failure:
  assumes "dev (submitted l) = NoResult" "job_state l = False"
  shows "get_counts_loop dev l =
    (None, l\<lparr>submitted := Suc (submitted l), no_of_job_retries := no_of_job_retries l + 1\<rparr>)"
  using assms by (subst get_counts_loop.simps) simp


lemma foldl_snoc_H: "foldl (\<lambda>c q. c @ [H q]) c qs = c @ map H qs"
  by (induction qs arbitrary: c) simp_all

lemma apply_decomposition_foldl:
  "apply_decomposition app ts c = foldl (\<lambda>c t. app t c) c ts"
  by (induction ts arbitrary: c) simp_all

lemma gates_loop_closed:
  "gates_loop str dec app gs (c, ps, done) =
     (foldl (\<lambda>c g. apply_decomposition app (dec g) c) c (map (bound_gate str) gs),
      ps @ map (gate_parameter str) gs,
      done @ map (bound_gate str) gs)"
  by (induction gs arbitrary: c ps "done")
     (simp_all add: Let_def bound_gate_def gate_parameter_def)

lemma parametric_qaoa_circuit_closed:
  "parametric_qaoa_circuit str dec app b =
     (foldl (\<lambda>c g. apply_decomposition app (dec g) c)
        ((case prepend_state b of Some p \<Rightarrow> p | None \<Rightarrow> []) @
         (if init_hadamard b then map H (qubit_layout b) else []))
        (map (bound_gate str) (abstract_circuit b))
      @ (case append_state b of Some a \<Rightarrow> a | None \<Rightarrow> [])
      @ [Probability],
      b\<lparr>braket_parameter_list := map (gate_parameter str) (abstract_circuit b),
        abstract_circuit := map (bound_gate str) (abstract_circuit b)\<rparr>)"
  by (simp add: parametric_qaoa_circuit_def gates_loop_closed foldl_snoc_H
      split: option.splits)

text \<open>
  When every low-level gate adds its instructions at the end of the circuit, as \<open>+=\<close>
  does, the circuit is the concatenation of its five parts.
\<close>

lemma foldl_appending:
  assumes "\<And>t c. app t c = c @ instrs t"
  shows "foldl (\<lambda>c g. apply_decomposition app (dec g) c) c gs =
         c @ concat (map (\<lambda>g. concat (map instrs (dec g))) gs)"
proof -
  have inner: "apply_decomposition app ts c = c @ concat (map instrs ts)" for ts c
    by (induction ts arbitrary: c) (simp_all add: assms)
  show ?thesis
    by (induction gs arbitrary: c) (simp_all add: inner)
qed

lemma parametric_qaoa_circuit_appending:
  assumes "\<And>t c. app t c = c @ instrs t"
  shows "fst (parametric_qaoa_circuit str dec app b) =
     (case prepend_state b of Some p \<Rightarrow> p | None \<Rightarrow> []) @
     (if init_hadamard b then map H (qubit_layout b) else []) @
     concat (map (\<lambda>g. concat (map instrs (dec (bound_gate str g)))) (abstract_circuit b)) @
     (case append_state b of Some a \<Rightarrow> a | None \<Rightarrow> []) @
     [Probability]"
  by (simp add: parametric_qaoa_circuit_closed foldl_appending [OF assms] comp_def)

text \<open>
  C1. When reading the result raises AttributeError on every attempt, the claim has
  \<open>get_counts\<close> submit the job again, up to five retries, and then raise ConnectionError.
  The code leaves the loop by \<open>break\<close> in the handler of the first failed attempt: for
  the device that never delivers a result, one task is submitted, and the call ends in
  UnboundLocalError at the read of \<open>counts\<close>, not in ConnectionError.
\<close>

theorem get_counts_always_failing:
  "get_counts (\<lambda>k. NoResult) b =
     (Inl UnboundLocalError, b\<lparr>tasks_submitted := Suc (tasks_submitted b)\<rparr>)"
  by (simp add: get_counts_def get_counts_loop_failure)

text \<open>
  The same holds for every device whose answer to the submitted task carries no result,
  and no run of \<open>get_counts\<close> ends in ConnectionError: the retry check is reached only
  after a successful read, when no retry has been counted.
\<close>

lemma get_counts_first_attempt_fails:
  assumes "dev (tasks_submitted b) = NoResult"
  shows "get_counts dev b =
     (Inl UnboundLocalError, b\<lparr>tasks_submitted := Suc (tasks_submitted b)\<rparr>)"
  using assms by (simp add: get_counts_def get_counts_loop_failure)

lemma get_counts_never_connection_error:
  "fst (get_counts dev b) \<noteq> Inl ConnectionError"
proof (cases "dev (tasks_submitted b)")
  case (MeasurementCounts c)
  then show ?thesis
    by (simp add: get_counts_def get_counts_loop_success max_job_retries_def)
next
  case NoResult
  then show ?thesis by (simp add: get_counts_first_attempt_fails)
qed

text \<open>
  C5. When the submitted job delivers its result, \<open>get_counts\<close> returns the measurement
  counts of that job and stores the same dictionary in \<open>self.measurement_outcomes\<close>;
  exactly one task has been submitted.
\<close>

theorem get_counts_success:
  assumes "dev (tasks_submitted b) = MeasurementCounts c"
  shows "get_counts dev b =
     (Inr c, b\<lparr>tasks_submitted := Suc (tasks_submitted b), measurement_outcomes := Some c\<rparr>)"
  using assms
  by (simp add: get_counts_def get_counts_loop_success max_job_retries_def)

theorem get_counts_success_witness:
  "(\<lambda>k. MeasurementCounts [(''01'', 7), (''10'', 3)]) (tasks_submitted example_backend)
     = MeasurementCounts [(''01'', 7), (''10'', 3)]
   \<and> get_counts (\<lambda>k. MeasurementCounts [(''01'', 7), (''10'', 3)]) example_backend =
     (Inr [(''01'', 7), (''10'', 3)],
      example_backend\<lparr>tasks_submitted := 1,
        measurement_outcomes := Some [(''01'', 7), (''10'', 3)]\<rparr>)"
  using get_counts_success
    [of "\<lambda>k. MeasurementCounts [(''01'', 7), (''10'', 3)]" example_backend
        "[(''01'', 7), (''10'', 3)]"]
  by (simp add: example_backend_def)

text \<open>
  C6. \<open>parametric_qaoa_circuit\<close> builds the circuit in this order: the prepended circuit
  when there is one, a Hadamard on every qubit of \<open>qubit_layout\<close> when \<open>init_hadamard\<close> is
  set, then, gate by gate of the abstract circuit, the low-level gates of its standard
  decomposition, taken after the gate's angle has been replaced by a new FreeParameter named
  by the gate's label, then the appended circuit when there is one, and last the
  Probability result type. \<open>braket_parameter_list\<close> holds one parameter per abstract gate,
  in gate order, and no task is submitted.
\<close>

theorem parametric_qaoa_circuit_order:
  "parametric_qaoa_circuit str dec app b =
     (foldl (\<lambda>c g. foldl (\<lambda>c t. app t c) c (dec g))
        ((case prepend_state b of Some p \<Rightarrow> p | None \<Rightarrow> []) @
         (if init_hadamard b then map H (qubit_layout b) else []))
        (map (bound_gate str) (abstract_circuit b))
      @ (case append_state b of Some a \<Rightarrow> a | None \<Rightarrow> [])
      @ [Probability],
      b\<lparr>braket_parameter_list := map (gate_parameter str) (abstract_circuit b),
        abstract_circuit := map (bound_gate str) (abstract_circuit b)\<rparr>)
   \<and> tasks_submitted (snd (parametric_qaoa_circuit str dec app b)) = tasks_submitted b
   \<and> measurement_outcomes (snd (parametric_qaoa_circuit str dec app b)) = measurement_outcomes b"
  by (simp add: parametric_qaoa_circuit_closed apply_decomposition_foldl)


section \<open>Properties of the bin packing problem\<close>

subsection \<open>Which exceptions the methods raise, and which attributes they write\<close>



lemma for_each_invariant:
  assumes "\<And>x s r s'. body x s = (r, s') \<Longrightarrow> P s \<Longrightarrow> P s'"
  shows "for_each body xs s = (r, s') \<Longrightarrow> P s \<Longrightarrow> P s'"
proof (induction xs arbitrary: s)
  case Nil
  then show ?case by simp
next
  case (Cons x xs)
  obtain r1 s1 where b: "body x s = (r1, s1)" by (cases "body x s")
  then have P1: "P s1" using assms Cons.prems(2) by blast
  show ?case
  proof (cases r1)
    case None
    with b Cons.prems(1) have "for_each body xs s1 = (r, s')" by simp
    then show ?thesis using P1 by (rule Cons.IH)
  next
    case (Some e')
    with b Cons.prems(1) have "s' = s1" by simp
    then show ?thesis using P1 by simp
  qed
qed










lemma eq_body_core:
  assumes "eq_body vars pos i s = (r, s')"
  shows "core (snd s') = core (snd s)"
proof -
  obtain m b where s: "s = (m, b)" by (cases s)
  from assms show ?thesis
    unfolding s eq_body_def
    by (auto simp: Let_def core_def split: sum.splits)
qed

lemma ineq_body_core:
  assumes "ineq_body vars pos j s = (r, s')"
  shows "core (snd s') = core (snd s)"
proof -
  obtain m b where s: "s = (m, b)" by (cases s)
  from assms show ?thesis
    unfolding s ineq_body_def
    by (auto simp: Let_def core_def split: sum.splits if_splits)
qed

lemma for_each_eq_core:
  "for_each (eq_body vars pos) xs s = (r, s') \<Longrightarrow> core (snd s') = core (snd s)"
  using for_each_invariant
    [of "eq_body vars pos" "\<lambda>t. core (snd t) = core (snd s)" xs s r s']
  by (simp add: eq_body_core)

lemma for_each_ineq_core:
  "for_each (ineq_body vars pos) xs s = (r, s') \<Longrightarrow> core (snd s') = core (snd s)"
  using for_each_invariant
    [of "ineq_body vars pos" "\<lambda>t. core (snd t) = core (snd s)" xs s r s']
  by (simp add: ineq_body_core)

lemma docplex_model_core: "core (snd (docplex_model b)) = core b"
proof (cases "solution b")
  case None
  then show ?thesis by (simp add: docplex_model_def attribute_def)
next
  case (Some sol)
  define created where "created = map fst (filter (\<lambda>(v, val). val = None) sol)"
  define vars where
    "vars = map (\<lambda>(v, val). (v, case val of None \<Rightarrow> BinaryVar v | Some n \<Rightarrow> Fixed n)) sol"
  define pos where "pos = zip created [0..<length created]"
  define b1 where "b1 = b\<lparr>vars_pos := Some pos\<rparr>"
  define mdl where
    "mdl = \<lparr>binary_vars = created,
            objective = map snd (filter (\<lambda>(v, x). case v of Y j \<Rightarrow> True | X i j \<Rightarrow> False) vars),
            constraints = []\<rparr>"
  obtain r2 mdl2 b2 where l1: "for_each (eq_body vars pos) (list_items b1) (mdl, b1) = (r2, mdl2, b2)"
    by (metis prod_cases3)
  obtain r3 mdl3 b3 where l2: "for_each (ineq_body vars pos) [0..<n_bins b2] (mdl2, b2) = (r3, mdl3, b3)"
    by (metis prod_cases3)
  have c1: "core b1 = core b" by (simp add: b1_def core_def)
  have c2: "core b2 = core b" using for_each_eq_core [OF l1] c1 by simp
  have c3: "core b3 = core b" using for_each_ineq_core [OF l2] c2 by simp
  have "snd (docplex_model b) = (case r2 of Some e \<Rightarrow> b2 | None \<Rightarrow> b3)"
    using Some l1 l2
    by (simp add: docplex_model_def attribute_def Let_def created_def [symmetric]
        vars_def [symmetric] pos_def [symmetric] b1_def [symmetric] mdl_def [symmetric]
        split: option.splits)
  then show ?thesis using c2 c3 by (simp split: option.splits)
qed

lemma core_fields:
  "weights (core b) = weights b" "weight_capacity (core b) = weight_capacity b"
  "penalty (core b) = penalty b" "n_items (core b) = n_items b" "n_bins (core b) = n_bins b"
  "method (core b) = method b" "simplifications (core b) = simplifications b"
  "min_bins (core b) = min_bins b" "solution (core b) = solution b"
  "cplex_model (core b) = cplex_model b" "n_vars (core b) = n_vars b"
  by (simp_all add: core_def)

lemma docplex_model_fields:
  "weights (snd (docplex_model b)) = weights b"
  "weight_capacity (snd (docplex_model b)) = weight_capacity b"
  "penalty (snd (docplex_model b)) = penalty b"
  "n_items (snd (docplex_model b)) = n_items b"
  "n_bins (snd (docplex_model b)) = n_bins b"
  "method (snd (docplex_model b)) = method b"
  "simplifications (snd (docplex_model b)) = simplifications b"
  "min_bins (snd (docplex_model b)) = min_bins b"
  "solution (snd (docplex_model b)) = solution b"
  "cplex_model (snd (docplex_model b)) = cplex_model b"
  "n_vars (snd (docplex_model b)) = n_vars b"
  using docplex_model_core [of b] core_fields by metis+

lemma solution_dict_state:
  "snd (solution_dict b) = b \<or> (\<exists>m. snd (solution_dict b) = b\<lparr>min_bins := Some m\<rparr>)"
  by (auto simp: solution_dict_def Let_def split: sum.splits)




lemma solution_dict_fields:
  "solution (snd (solution_dict b)) = solution b"
  "cplex_model (snd (solution_dict b)) = cplex_model b"
  "n_vars (snd (solution_dict b)) = n_vars b"
  using solution_dict_state [of b] by auto

lemma build_returns:
  assumes "build b = (None, b')"
  shows "consistent b' \<and> cplex_model b' \<noteq> None"
proof -
  obtain r b1 where sd: "solution_dict b = (r, b1)" by (cases "solution_dict b")
  with assms obtain s where r: "r = Inr s" by (cases r) (auto simp: build_def)
  obtain r2 b2 where dm: "docplex_model (b1\<lparr>solution := Some s\<rparr>) = (r2, b2)"
    by (cases "docplex_model (b1\<lparr>solution := Some s\<rparr>)")
  with assms sd r obtain m where r2: "r2 = Inr m" by (cases r2) (auto simp: build_def)
  have b': "b' = b2\<lparr>cplex_model := Some m, n_vars := Some (number_of_binary_variables m)\<rparr>"
    using assms sd r dm r2 by (simp add: build_def)
  have "solution b2 = Some s"
    using docplex_model_fields(9) [of "b1\<lparr>solution := Some s\<rparr>"] dm by simp
  then show ?thesis by (simp add: b' consistent_def)
qed

lemma build_raises:
  assumes "build b = (Some e, b')"
  shows "cplex_model b' = cplex_model b \<and> n_vars b' = n_vars b \<and>
         (solution b \<noteq> None \<longrightarrow> solution b' \<noteq> None)"
proof -
  obtain r b1 where sd: "solution_dict b = (r, b1)" by (cases "solution_dict b")
  have f1: "cplex_model b1 = cplex_model b" "n_vars b1 = n_vars b" "solution b1 = solution b"
    using solution_dict_fields [of b] sd by simp_all
  show ?thesis
  proof (cases r)
    case (Inl e')
    then have "b' = b1" using assms sd by (simp add: build_def)
    then show ?thesis using f1 by simp
  next
    case (Inr s)
    obtain r2 b2 where dm: "docplex_model (b1\<lparr>solution := Some s\<rparr>) = (r2, b2)"
      by (cases "docplex_model (b1\<lparr>solution := Some s\<rparr>)")
    with assms sd Inr have "b' = b2" by (cases r2) (auto simp: build_def)
    moreover have "cplex_model b2 = cplex_model b1" "n_vars b2 = n_vars b1" "solution b2 = Some s"
      using docplex_model_fields(9,10,11) [of "b1\<lparr>solution := Some s\<rparr>"] dm by simp_all
    ultimately show ?thesis using f1 by simp
  qed
qed

lemma build_consistent:
  assumes "consistent b"
  shows "consistent (snd (build b)) \<and>
         (cplex_model (snd (build b)) \<noteq> None \<longleftrightarrow> cplex_model b \<noteq> None \<or> fst (build b) = None)"
proof (cases "build b")
  case (Pair r b')
  show ?thesis
  proof (cases r)
    case None
    then show ?thesis using Pair build_returns [of b b'] by simp
  next
    case (Some e)
    then have "cplex_model b' = cplex_model b \<and> n_vars b' = n_vars b \<and>
         (solution b \<noteq> None \<longrightarrow> solution b' \<noteq> None)"
      using Pair build_raises [of b e b'] by simp
    then show ?thesis using Pair Some assms
      by (auto simp: consistent_def split: option.splits)
  qed
qed

lemma run_call_consistent:
  assumes "consistent b"
  shows "consistent (snd (run_call rng b c)) \<and>
         (cplex_model (snd (run_call rng b c)) \<noteq> None \<longleftrightarrow>
            cplex_model b \<noteq> None \<or> fst (run_call rng b c) = None)"
proof (cases "call_min_weight c \<ge> call_max_weight c")
  case True
  then show ?thesis using assms
    by (simp add: run_call_def random_instance_def Let_def consistent_def split: option.splits)
next
  case False
  define b2 where "b2 = b\<lparr>weight_capacity := call_weight_capacity c, n_items := call_n_items c,
      n_bins := call_n_items c,
      weights := map (rng (call_seed c) (call_min_weight c) (call_max_weight c))
                   [0..<call_n_items c],
      simplifications := call_simplification c\<rparr>"
  have rc: "run_call rng b c = build b2"
    using False by (simp add: run_call_def random_instance_def Let_def b2_def)
  have "consistent b2" using assms by (simp add: consistent_def b2_def split: option.splits)
  from build_consistent [OF this] show ?thesis by (simp add: rc b2_def)
qed

lemma after_calls_consistent:
  "consistent b \<Longrightarrow>
   consistent (after_calls rng b cs) \<and>
   (cplex_model (after_calls rng b cs) \<noteq> None \<longleftrightarrow>
      cplex_model b \<noteq> None \<or> some_call_returned rng b cs)"
proof (induction cs arbitrary: b)
  case Nil
  then show ?case by simp
next
  case (Cons c cs)
  from run_call_consistent [OF Cons.prems, of rng c]
  have 1: "consistent (snd (run_call rng b c))"
    and 2: "cplex_model (snd (run_call rng b c)) \<noteq> None \<longleftrightarrow>
            cplex_model b \<noteq> None \<or> fst (run_call rng b c) = None" by simp_all
  from Cons.IH [OF 1] 2 show ?case by auto
qed

lemma consistent_built: "consistent b \<Longrightarrow> built b \<longleftrightarrow> cplex_model b \<noteq> None"
  by (auto simp: consistent_def built_def split: option.splits)

lemma init_consistent:
  assumes "init ws cap pen bins simp meth = (None, b)"
  shows "consistent b \<and> (cplex_model b \<noteq> None \<longleftrightarrow> ws \<noteq> [])"
proof (cases "ws = []")
  case True
  then show ?thesis using assms by (auto simp: init_def consistent_def)
next
  case False
  then show ?thesis using assms build_returns [of _ b] by (auto simp: init_def Let_def)
qed



subsection \<open>The solution dictionary\<close>

lemma update_fresh: "k \<notin> fst ` set al \<Longrightarrow> AList.update k v al = al @ [(k, v)]"
  by (induction al) auto

lemma fold_update_fresh:
  "distinct (map f js) \<Longrightarrow> f ` set js \<inter> fst ` set al = {} \<Longrightarrow>
   fold (\<lambda>j. AList.update (f j) v) js al = al @ map (\<lambda>j. (f j, v)) js"
proof (induction js arbitrary: al)
  case Nil
  then show ?case by simp
next
  case (Cons j js)
  have 1: "f j \<notin> fst ` set al" using Cons.prems(2) by auto
  have 2: "f ` set js \<inter> fst ` set (al @ [(f j, v)]) = {}"
    using Cons.prems by auto
  show ?case
    using Cons.IH [OF _ 2] Cons.prems(1) by (simp add: update_fresh [OF 1])
qed

lemma fold_rows_fresh:
  "distinct rows \<Longrightarrow> (\<forall>i\<in>set rows. \<forall>j. X i j \<notin> fst ` set al) \<Longrightarrow>
   fold (\<lambda>i. fold (\<lambda>j. AList.update (X i j) v) [0..<n]) rows al =
     al @ concat (map (\<lambda>i. map (\<lambda>j. (X i j, v)) [0..<n]) rows)"
proof (induction rows arbitrary: al)
  case Nil
  then show ?case by simp
next
  case (Cons i rows)
  have d: "distinct (map (X i) [0..<n])" by (simp add: distinct_map inj_on_def)
  have f: "X i ` set [0..<n] \<inter> fst ` set al = {}" using Cons.prems(2) by auto
  have row: "fold (\<lambda>j. AList.update (X i j) v) [0..<n] al = al @ map (\<lambda>j. (X i j, v)) [0..<n]"
    using fold_update_fresh [of "X i" "[0..<n]" al v, OF d f] .
  have rest: "\<forall>i'\<in>set rows. \<forall>j. X i' j \<notin> fst ` set (al @ map (\<lambda>j. (X i j, v)) [0..<n])"
    using Cons.prems by (force simp: image_iff)
  show ?case
    using Cons.IH [OF _ rest] Cons.prems(1) by (simp add: row)
qed

lemma free_solution:
  "fold (\<lambda>i. fold (\<lambda>j. AList.update (X i j) None) [0..<bins]) [0..<items]
     (map (\<lambda>i. (Y i, None :: int option)) [0..<bins]) =
   map (\<lambda>v. (v, None)) (variables bins items)"
proof -
  let ?ys = "map (\<lambda>i. (Y i, None :: int option)) [0..<bins]"
  have fresh: "\<forall>i\<in>set [0..<items]. \<forall>j. X i j \<notin> fst ` set ?ys"
    by auto
  have d: "distinct [0..<items]" by simp
  have "fold (\<lambda>i. fold (\<lambda>j. AList.update (X i j) None) [0..<bins]) [0..<items] ?ys =
        ?ys @ concat (map (\<lambda>i. map (\<lambda>j. (X i j, None)) [0..<bins]) [0..<items])"
    by (rule fold_rows_fresh [OF d fresh])
  then show ?thesis
    by (simp add: variables_def map_concat comp_def)
qed

lemma concat_rows_product:
  "concat (map (\<lambda>i. map (X i) js) rows) = map (\<lambda>(i, j). X i j) (List.product rows js)"
  by (induction rows) simp_all

lemma distinct_variables: "distinct (variables bins items)"
proof -
  have "distinct (map (\<lambda>(i, j). X i j) (List.product [0..<items] [0..<bins]))"
    by (simp add: distinct_map distinct_product inj_on_def split: prod.splits)
  then show ?thesis
    by (auto simp: variables_def concat_rows_product distinct_map inj_on_def)
qed

lemma set_variables:
  "set (variables bins items) = {Y j | j. j < bins} \<union> {X i j | i j. i < items \<and> j < bins}"
  by (auto simp: variables_def)

lemma map_of_fold_update_if:
  "map_of (fold (\<lambda>j s. if P j then AList.update (f j) v s else s) js al) k =
     (if \<exists>j\<in>set js. P j \<and> f j = k then Some v else map_of al k)"
  by (induction js arbitrary: al) (auto simp: update_conv')

lemma map_of_fold_update:
  "map_of (fold (\<lambda>j. AList.update (f j) v) js al) k =
     (if \<exists>j\<in>set js. f j = k then Some v else map_of al k)"
  by (induction js arbitrary: al) (auto simp: update_conv')

lemma keys_fold_update_if:
  "(\<forall>j\<in>set js. P j \<longrightarrow> f j \<in> fst ` set al) \<Longrightarrow>
   map fst (fold (\<lambda>j s. if P j then AList.update (f j) v s else s) js al) = map fst al"
proof (induction js arbitrary: al)
  case Nil
  then show ?case by simp
next
  case (Cons j js)
  let ?al = "if P j then AList.update (f j) v al else al"
  have k: "map fst ?al = map fst al" using Cons.prems by (simp add: update_keys)
  then have "fst ` set ?al = fst ` set al" by (metis set_map)
  then have "\<forall>j\<in>set js. P j \<longrightarrow> f j \<in> fst ` set ?al" using Cons.prems by simp
  from Cons.IH [OF this] k show ?case by simp
qed

lemma keys_fold_update:
  "(\<forall>j\<in>set js. f j \<in> fst ` set al) \<Longrightarrow>
   map fst (fold (\<lambda>j. AList.update (f j) v) js al) = map fst al"
  using keys_fold_update_if [of js "\<lambda>j. True" f al v] by simp

lemma alist_eqI:
  "map fst xs = map fst ys \<Longrightarrow> distinct (map fst xs) \<Longrightarrow> map_of xs = map_of ys \<Longrightarrow> xs = ys"
proof (induction xs arbitrary: ys)
  case Nil
  then show ?case by simp
next
  case (Cons x xs)
  then obtain y ys' where ys: "ys = y # ys'" by (cases ys) auto
  have k: "fst x = fst y" and ks: "map fst xs = map fst ys'"
    using Cons.prems(1) ys by simp_all
  have "map_of (x # xs) (fst x) = map_of (y # ys') (fst x)"
    using Cons.prems(3) ys by metis
  then have v: "snd x = snd y" using k by (cases x; cases y) simp
  have fresh: "fst x \<notin> set (map fst xs)" "fst x \<notin> set (map fst ys')"
    using Cons.prems(2) ks by simp_all
  have "map_of xs k' = map_of ys' k'" for k'
  proof (cases "k' = fst x")
    case True
    then show ?thesis using fresh
      by (metis map_of_eq_None_iff set_map)
  next
    case False
    have "map_of (x # xs) k' = map_of (y # ys') k'" using Cons.prems(3) ys by metis
    then show ?thesis using False k by (cases x; cases y) simp
  qed
  then have "map_of xs = map_of ys'" by (rule ext)
  from Cons.IH [OF ks _ this] Cons.prems(2) have "xs = ys'" by simp
  then show ?case using ys k v by (simp add: prod_eq_iff)
qed

lemma map_of_graph:
  "map_of (map (\<lambda>v. (v, g v)) vs) k = (if k \<in> set vs then Some (g k) else None)"
  by (induction vs) auto


lemma keys_graph: "map fst (map (\<lambda>v. (v, g v)) vs) = vs"
  by (induction vs) simp_all

lemma key_set_graph: "fst ` set (map (\<lambda>v. (v, g v)) vs) = set vs"
  by (metis keys_graph set_map)

lemma solution_dict_free:
  assumes "\<not> simplifications b"
  shows "solution_dict b =
    (Inr (map (\<lambda>v. (v, None)) (variables (n_bins b) (n_items b))), b)"
  using assms by (simp add: solution_dict_def free_solution)

lemma simplified_solution:
  assumes "0 < items" "0 < bins"
  shows "fold (\<lambda>j. AList.update (X 0 j) (Some 0)) [1..<bins]
           (AList.update (X 0 0) (Some 1)
              (fold (\<lambda>j s. if int j < m then AList.update (Y j) (Some 1) s else s) [0..<bins]
                 (map (\<lambda>v. (v, None)) (variables bins items)))) =
         map (\<lambda>v. (v, simplified m v)) (variables bins items)"
    (is "?s4 = ?closed")
proof (rule alist_eqI)
  let ?vs = "variables bins items"
  let ?s1 = "map (\<lambda>v. (v, None :: int option)) ?vs"
  let ?s2 = "fold (\<lambda>j s. if int j < m then AList.update (Y j) (Some 1) s else s) [0..<bins] ?s1"
  let ?s3 = "AList.update (X 0 0) (Some 1) ?s2"
  have p2: "\<forall>j\<in>set [0..<bins]. int j < m \<longrightarrow> Y j \<in> fst ` set ?s1"
    unfolding key_set_graph by (simp add: set_variables)
  have k2: "map fst ?s2 = ?vs"
    using keys_fold_update_if [OF p2, of "Some 1"] by (simp only: keys_graph)
  have "X 0 0 \<in> set ?vs" using assms by (simp add: set_variables)
  then have k3: "map fst ?s3 = ?vs"
    using k2 by (simp add: update_keys)
  have "fst ` set ?s3 = set ?vs" using k3 by (metis set_map)
  then have "\<forall>j\<in>set [1..<bins]. X 0 j \<in> fst ` set ?s3"
    using assms by (simp add: set_variables)
  then have k4: "map fst ?s4 = ?vs"
    using keys_fold_update [of "[1..<bins]" "X 0" ?s3 "Some 0"] k3 by simp
  show "map fst ?s4 = map fst ?closed" unfolding keys_graph by (rule k4)
  show "distinct (map fst ?s4)" using k4 distinct_variables by simp
  show "map_of ?s4 = map_of ?closed"
  proof
    fix k
    show "map_of ?s4 k = map_of ?closed k"
      using assms
      by (cases k)
         (auto simp: map_of_fold_update update_conv' map_of_fold_update_if map_of_graph
            set_variables)
  qed
qed

lemma solution_dict_simplified:
  assumes "simplifications b" "weight_capacity b \<noteq> 0" "0 < n_items b" "0 < n_bins b"
  shows "solution_dict b =
    (Inr (map (\<lambda>v. (v, simplified \<lceil>(of_int (sum_list (weights b)) :: rat) / of_int (weight_capacity b)\<rceil> v))
            (variables (n_bins b) (n_items b))),
     b\<lparr>min_bins := Some \<lceil>(of_int (sum_list (weights b)) :: rat) / of_int (weight_capacity b)\<rceil>\<rparr>)"
  using assms
  by (simp add: solution_dict_def free_solution compute_min_bins_def simplified_solution
      del: One_nat_def)





subsection \<open>The model and the recorded constraints\<close>

lemma comprehension_Inr:
  "(\<And>x. x \<in> set xs \<Longrightarrow> f x = Inr (h x)) \<Longrightarrow> comprehension f xs = Inr (map h xs)"
  by (induction xs) simp_all

lemma position_less: "v \<in> set xs \<Longrightarrow> position xs v < length xs"
  unfolding position_def by (induction xs) auto

lemma nth_position: "v \<in> set xs \<Longrightarrow> xs ! position xs v = v"
  unfolding position_def by (induction xs) auto

lemma position_inject:
  "v \<in> set xs \<Longrightarrow> w \<in> set xs \<Longrightarrow> position xs v = position xs w \<Longrightarrow> v = w"
  by (metis nth_position)

lemma map_of_zip_position:
  "v \<in> set xs \<Longrightarrow> map_of (zip xs [k..<k + length xs]) v = Some (k + position xs v)"
proof (induction xs arbitrary: k)
  case Nil
  then show ?case by simp
next
  case (Cons x xs)
  have u: "[k..<k + length (x # xs)] = k # [Suc k..<Suc k + length xs]"
    by (simp add: upt_rec)
  show ?case
  proof (cases "x = v")
    case True
    then show ?thesis unfolding u by (simp add: position_def)
  next
    case False
    with Cons.prems have "v \<in> set xs" by simp
    from Cons.IH [OF this, of "Suc k"] False show ?thesis
      unfolding u by (simp add: position_def)
  qed
qed

lemma getitem_position:
  "v \<in> set xs \<Longrightarrow> getitem (zip xs [0..<length xs]) v = Inr (position xs v)"
  using map_of_zip_position [of v xs 0] by (simp add: getitem_def)

lemma getitem_graph:
  "v \<in> set vs \<Longrightarrow> getitem (map (\<lambda>v. (v, h v)) vs) v = Inr (h v)"
  by (simp add: getitem_def map_of_graph)

lemma created_graph:
  "map fst (filter (\<lambda>(v, val). val = None) (map (\<lambda>v. (v, g v)) vs)) =
   filter (\<lambda>v. g v = None) vs"
  by (induction vs) simp_all

lemma vars_graph:
  "map (\<lambda>(v, val). (v, case val of None \<Rightarrow> BinaryVar v | Some n \<Rightarrow> Fixed n))
     (map (\<lambda>v. (v, g v)) vs) =
   map (\<lambda>v. (v, operand_of g v)) vs"
  by (simp add: operand_of_def)

lemma eq_body_returns:
  assumes "\<forall>j<n_bins b. X i j \<in> set created \<and> X i j \<in> set vs"
  shows "eq_body (map (\<lambda>v. (v, h v)) vs) (zip created [0..<length created]) i (md, b) =
    (None,
     md\<lparr>constraints := constraints md @ [SumEq (map (\<lambda>j. h (X i j)) [0..<n_bins b]) 1]\<rparr>,
     b\<lparr>eq_constraints := AList.update i (eq_row created (n_bins b) i) (eq_constraints b)\<rparr>)"
proof -
  have 1: "comprehension (\<lambda>j. getitem (zip created [0..<length created]) (X i j)) [0..<n_bins b] =
           Inr (map (\<lambda>j. position created (X i j)) [0..<n_bins b])"
    using assms by (intro comprehension_Inr) (simp add: getitem_position)
  have 2: "comprehension (\<lambda>j. getitem (map (\<lambda>v. (v, h v)) vs) (X i j)) [0..<n_bins b] =
           Inr (map (\<lambda>j. h (X i j)) [0..<n_bins b])"
    using assms by (intro comprehension_Inr) (simp add: getitem_graph)
  show ?thesis
    by (simp add: eq_body_def 1 2 eq_row_def)
qed

lemma eq_loop:
  assumes "\<forall>i\<in>set rows. \<forall>j<n_bins b. X i j \<in> set created \<and> X i j \<in> set vs"
  shows "\<exists>md'. for_each (eq_body (map (\<lambda>v. (v, h v)) vs) (zip created [0..<length created]))
            rows (md, b) =
          (None, md',
           b\<lparr>eq_constraints :=
               fold (\<lambda>i. AList.update i (eq_row created (n_bins b) i)) rows (eq_constraints b)\<rparr>)
          \<and> binary_vars md' = binary_vars md"
  using assms
proof (induction rows arbitrary: md b)
  case Nil
  then show ?case by simp
next
  case (Cons i rows)
  let ?b1 = "b\<lparr>eq_constraints := AList.update i (eq_row created (n_bins b) i) (eq_constraints b)\<rparr>"
  let ?m1 = "md\<lparr>constraints := constraints md @ [SumEq (map (\<lambda>j. h (X i j)) [0..<n_bins b]) 1]\<rparr>"
  have s: "eq_body (map (\<lambda>v. (v, h v)) vs) (zip created [0..<length created]) i (md, b) =
           (None, ?m1, ?b1)"
    using Cons.prems by (intro eq_body_returns) simp
  have "\<forall>i\<in>set rows. \<forall>j<n_bins ?b1. X i j \<in> set created \<and> X i j \<in> set vs"
    using Cons.prems by simp
  from Cons.IH [OF this, of ?m1] show ?case
    by (simp add: s)
qed


lemma index_nat: "i < length xs \<Longrightarrow> index xs (int i) = Inr (xs ! i)"
  by (simp add: index_def)

lemma index_zero: "xs \<noteq> [] \<Longrightarrow> index xs 0 = Inr (hd xs)"
  by (simp add: index_def hd_conv_nth)

lemma ineq_row_update [simp]:
  "ineq_row created (b\<lparr>ineq_constraints := c\<rparr>) j = ineq_row created b j"
  by (simp add: ineq_row_def list_items_def)

lemma recordable_update [simp]:
  "recordable (b\<lparr>ineq_constraints := c\<rparr>) vs created j = recordable b vs created j"
  by (simp add: recordable_def list_items_def)

lemma weight_constraint_update [simp]:
  "weight_constraint (b\<lparr>ineq_constraints := c\<rparr>) h j = weight_constraint b h j"
  by (simp add: weight_constraint_def)

lemma ineq_body_returns:
  assumes "recordable b vs created j"
  shows "ineq_body (map (\<lambda>v. (v, h v)) vs) (zip created [0..<length created]) j (md, b) =
    (None,
     md\<lparr>constraints := constraints md @ [weight_constraint b h j]\<rparr>,
     b\<lparr>ineq_constraints := AList.update j (ineq_row created b j) (ineq_constraints b)\<rparr>)"
proof -
  let ?vars = "map (\<lambda>v. (v, h v)) vs"
  let ?pos = "zip created [0..<length created]"
  have a: "\<forall>i<n_items b. X i j \<in> set vs" "n_items b \<le> length (weights b)"
    "0 < n_items b \<longrightarrow> weight_capacity b \<noteq> 0" "Y j \<in> set vs"
    "simplifications b \<longrightarrow> min_bins b \<noteq> None"
    "\<forall>i\<in>set (list_items b). X i j \<in> set created"
    "if simplifications b \<and> int j < the (min_bins b) then j = 0 \<longrightarrow> weights b \<noteq> []
     else Y j \<in> set created"
    using assms by (simp_all add: recordable_def)
  have 1: "comprehension (weight_term b ?vars j) [0..<n_items b] =
           Inr (map (\<lambda>i. (of_int (weights b ! i) / of_int (weight_capacity b), h (X i j)))
                  [0..<n_items b])"
  proof (intro comprehension_Inr)
    fix i assume "i \<in> set [0..<n_items b]"
    then have i: "i < n_items b" by simp
    then have "i < length (weights b)" "weight_capacity b \<noteq> 0" "X i j \<in> set vs"
      using a(1,2,3) by auto
    then show "weight_term b ?vars j i =
        Inr (of_int (weights b ! i) / of_int (weight_capacity b), h (X i j))"
      by (simp add: weight_term_def index_nat getitem_graph)
  qed
  have 2: "getitem ?vars (Y j) = Inr (h (Y j))" using a(4) by (simp add: getitem_graph)
  have 3: "comprehension (\<lambda>i. getitem ?pos (X i j)) (list_items b) =
           Inr (map (\<lambda>i. position created (X i j)) (list_items b))"
    using a(6) by (intro comprehension_Inr) (simp add: getitem_position)
  have 4: "(if simplifications b
            then (case attribute (min_bins b) of Inl e \<Rightarrow> Inl e | Inr m \<Rightarrow> Inr (int j < m))
            else Inr False) = Inr (simplifications b \<and> int j < the (min_bins b))"
    using a(5) by (auto simp: attribute_def)
  have 5: "ineq_rhs b ?pos j (simplifications b \<and> int j < the (min_bins b)) =
           Inr (snd (ineq_row created b j))"
    using a(7) by (auto simp: ineq_rhs_def ineq_row_def index_zero getitem_position)
  show ?thesis
    by (simp add: ineq_body_def 1 2 3 4 5 Let_def weight_constraint_def ineq_row_def)
qed

lemma ineq_loop:
  assumes "\<forall>j\<in>set js. recordable b vs created j"
  shows "\<exists>md'. for_each (ineq_body (map (\<lambda>v. (v, h v)) vs) (zip created [0..<length created]))
            js (md, b) =
          (None, md',
           b\<lparr>ineq_constraints :=
               fold (\<lambda>j. AList.update j (ineq_row created b j)) js (ineq_constraints b)\<rparr>)
          \<and> binary_vars md' = binary_vars md"
  using assms
proof (induction js arbitrary: md b)
  case Nil
  then show ?case by simp
next
  case (Cons j js)
  let ?b1 = "b\<lparr>ineq_constraints := AList.update j (ineq_row created b j) (ineq_constraints b)\<rparr>"
  let ?m1 = "md\<lparr>constraints := constraints md @ [weight_constraint b h j]\<rparr>"
  have s: "ineq_body (map (\<lambda>v. (v, h v)) vs) (zip created [0..<length created]) j (md, b) =
           (None, ?m1, ?b1)"
    using Cons.prems by (intro ineq_body_returns) simp
  have "\<forall>j\<in>set js. recordable ?b1 vs created j"
    using Cons.prems by simp
  from Cons.IH [OF this, of ?m1] show ?case
    by (simp add: s)
qed


lemma list_items_update [simp]:
  "list_items (b\<lparr>vars_pos := p\<rparr>) = list_items b"
  "list_items (b\<lparr>eq_constraints := c\<rparr>) = list_items b"
  "list_items (b\<lparr>ineq_constraints := c\<rparr>) = list_items b"
  by (simp_all add: list_items_def)

lemma recordable_update' [simp]:
  "recordable (b\<lparr>vars_pos := p\<rparr>) vs created j = recordable b vs created j"
  "recordable (b\<lparr>eq_constraints := c\<rparr>) vs created j = recordable b vs created j"
  by (simp_all add: recordable_def)

lemma ineq_row_update' [simp]:
  "ineq_row created (b\<lparr>vars_pos := p\<rparr>) j = ineq_row created b j"
  "ineq_row created (b\<lparr>eq_constraints := c\<rparr>) j = ineq_row created b j"
  by (simp_all add: ineq_row_def)

lemma docplex_model_returns:
  assumes sol: "solution b = Some (map (\<lambda>v. (v, g v)) vs)"
    and rows: "\<forall>i\<in>set (list_items b). \<forall>j<n_bins b.
                 X i j \<in> set (filter (\<lambda>v. g v = None) vs) \<and> X i j \<in> set vs"
    and bins: "\<forall>j<n_bins b. recordable b vs (filter (\<lambda>v. g v = None) vs) j"
  shows "\<exists>md. docplex_model b =
      (Inr md,
       b\<lparr>vars_pos := Some (zip (filter (\<lambda>v. g v = None) vs)
                             [0..<length (filter (\<lambda>v. g v = None) vs)]),
         eq_constraints :=
           fold (\<lambda>i. AList.update i (eq_row (filter (\<lambda>v. g v = None) vs) (n_bins b) i))
             (list_items b) (eq_constraints b),
         ineq_constraints :=
           fold (\<lambda>j. AList.update j (ineq_row (filter (\<lambda>v. g v = None) vs) b j))
             [0..<n_bins b] (ineq_constraints b)\<rparr>)
      \<and> binary_vars md = filter (\<lambda>v. g v = None) vs"
proof -
  define created where "created = filter (\<lambda>v. g v = None) vs"
  define pos where "pos = zip created [0..<length created]"
  define vars where "vars = map (\<lambda>v. (v, operand_of g v)) vs"
  define b1 where "b1 = b\<lparr>vars_pos := Some pos\<rparr>"
  define m1 where "m1 = \<lparr>binary_vars = created,
      objective = map snd (filter (\<lambda>(v, x). case v of Y j \<Rightarrow> True | X i j \<Rightarrow> False) vars),
      constraints = []\<rparr>"
  have r1: "\<forall>i\<in>set (list_items b1). \<forall>j<n_bins b1. X i j \<in> set created \<and> X i j \<in> set vs"
    using rows by (simp add: b1_def created_def)
  from eq_loop [OF r1, of "operand_of g" m1]
  obtain m2 where l1: "for_each (eq_body vars pos) (list_items b1) (m1, b1) =
      (None, m2, b1\<lparr>eq_constraints :=
          fold (\<lambda>i. AList.update i (eq_row created (n_bins b1) i)) (list_items b1)
            (eq_constraints b1)\<rparr>)"
    and v2: "binary_vars m2 = binary_vars m1"
    unfolding vars_def pos_def by blast
  define b2 where "b2 = b1\<lparr>eq_constraints :=
          fold (\<lambda>i. AList.update i (eq_row created (n_bins b1) i)) (list_items b1)
            (eq_constraints b1)\<rparr>"
  have r2: "\<forall>j\<in>set [0..<n_bins b2]. recordable b2 vs created j"
    using bins by (simp add: b2_def b1_def created_def)
  from ineq_loop [OF r2, of "operand_of g" m2]
  obtain m3 where l2: "for_each (ineq_body vars pos) [0..<n_bins b2] (m2, b2) =
      (None, m3, b2\<lparr>ineq_constraints :=
          fold (\<lambda>j. AList.update j (ineq_row created b2 j)) [0..<n_bins b2]
            (ineq_constraints b2)\<rparr>)"
    and v3: "binary_vars m3 = binary_vars m2"
    unfolding vars_def pos_def by blast
  have dm: "docplex_model b =
      (case for_each (eq_body vars pos) (list_items b1) (m1, b1) of
         (Some e, mdl2, b2) \<Rightarrow> (Inl e, b2)
       | (None, mdl2, b2) \<Rightarrow>
           (case for_each (ineq_body vars pos) [0..<n_bins b2] (mdl2, b2) of
              (Some e, mdl3, b3) \<Rightarrow> (Inl e, b3)
            | (None, mdl3, b3) \<Rightarrow> (Inr mdl3, b3)))"
    unfolding docplex_model_def sol attribute_def option.case sum.case Let_def
      created_graph vars_graph vars_def pos_def created_def b1_def m1_def
    by simp
  have "docplex_model b =
      (Inr m3, b2\<lparr>ineq_constraints :=
          fold (\<lambda>j. AList.update j (ineq_row created b2 j)) [0..<n_bins b2]
            (ineq_constraints b2)\<rparr>)"
    unfolding dm l1 b2_def [symmetric] by (simp add: l2)
  moreover have "binary_vars m3 = created" using v2 v3 by (simp add: m1_def)
  ultimately show ?thesis
    by (auto simp: b2_def b1_def created_def pos_def intro!: exI [of _ m3])
qed


lemma recordable_min_bins [simp]:
  "list_items (b\<lparr>min_bins := m\<rparr>) = list_items b"
  "list_items (b\<lparr>solution := s\<rparr>) = list_items b"
  by (simp_all add: list_items_def)

lemma variables_no_bins: "variables 0 items = []"
  by (simp add: variables_def)

lemma solution_dict_no_bins:
  assumes "simplifications b" "weight_capacity b \<noteq> 0" "n_bins b = 0"
  shows "solution_dict b =
    (Inr (map (\<lambda>v. (v, simplified \<lceil>(of_int (sum_list (weights b)) :: rat) / of_int (weight_capacity b)\<rceil> v))
            [X 0 0]),
     b\<lparr>min_bins := Some \<lceil>(of_int (sum_list (weights b)) :: rat) / of_int (weight_capacity b)\<rceil>\<rparr>)"
  using assms
  by (simp add: solution_dict_def free_solution [of 0, simplified] variables_no_bins
      compute_min_bins_def)

lemma docplex_model_free:
  assumes "solution b = Some (map (\<lambda>v. (v, None)) (variables (n_bins b) (n_items b)))"
    "\<not> simplifications b" "n_items b \<le> length (weights b)"
    "0 < n_items b \<and> 0 < n_bins b \<longrightarrow> weight_capacity b \<noteq> 0"
  shows "\<exists>md. docplex_model b =
      (Inr md,
       b\<lparr>vars_pos := Some (zip (variables (n_bins b) (n_items b))
                             [0..<length (variables (n_bins b) (n_items b))]),
         eq_constraints :=
           fold (\<lambda>i. AList.update i (eq_row (variables (n_bins b) (n_items b)) (n_bins b) i))
             (list_items b) (eq_constraints b),
         ineq_constraints :=
           fold (\<lambda>j. AList.update j (ineq_row (variables (n_bins b) (n_items b)) b j))
             [0..<n_bins b] (ineq_constraints b)\<rparr>)
      \<and> binary_vars md = variables (n_bins b) (n_items b)"
proof -
  let ?vs = "variables (n_bins b) (n_items b)"
  let ?g = "\<lambda>v::var. None :: int option"
  have c: "filter (\<lambda>v. ?g v = None) ?vs = ?vs" by simp
  have rows: "\<forall>i\<in>set (list_items b). \<forall>j<n_bins b.
      X i j \<in> set (filter (\<lambda>v. ?g v = None) ?vs) \<and> X i j \<in> set ?vs"
    using assms(2) by (simp add: list_items_def set_variables)
  have bins: "\<forall>j<n_bins b. recordable b ?vs (filter (\<lambda>v. ?g v = None) ?vs) j"
    using assms(2,3,4) by (auto simp: recordable_def list_items_def set_variables)
  from docplex_model_returns [of b ?g ?vs, OF assms(1) rows bins]
  show ?thesis unfolding c .
qed

lemma docplex_model_simplified:
  assumes "solution b = Some (map (\<lambda>v. (v, simplified m v)) vs)"
    "vs = variables (n_bins b) (n_items b) \<or> n_bins b = 0"
    "simplifications b" "min_bins b = Some m" "n_items b \<le> length (weights b)"
    "0 < n_items b" "weight_capacity b \<noteq> 0"
  shows "\<exists>md. docplex_model b =
      (Inr md,
       b\<lparr>vars_pos := Some (zip (filter (\<lambda>v. simplified m v = None) vs)
                             [0..<length (filter (\<lambda>v. simplified m v = None) vs)]),
         eq_constraints :=
           fold (\<lambda>i. AList.update i (eq_row (filter (\<lambda>v. simplified m v = None) vs) (n_bins b) i))
             (list_items b) (eq_constraints b),
         ineq_constraints :=
           fold (\<lambda>j. AList.update j (ineq_row (filter (\<lambda>v. simplified m v = None) vs) b j))
             [0..<n_bins b] (ineq_constraints b)\<rparr>)
      \<and> binary_vars md = filter (\<lambda>v. simplified m v = None) vs"
proof -
  have rows: "\<forall>i\<in>set (list_items b). \<forall>j<n_bins b.
      X i j \<in> set (filter (\<lambda>v. simplified m v = None) vs) \<and> X i j \<in> set vs"
    using assms(2,3) by (auto simp: list_items_def set_variables)
  have bins: "\<forall>j<n_bins b. recordable b vs (filter (\<lambda>v. simplified m v = None) vs) j"
    using assms(2-7) by (auto simp: recordable_def list_items_def set_variables)
  from docplex_model_returns [of b "simplified m" vs, OF assms(1) rows bins]
  show ?thesis .
qed


lemma build_succeeds:
  assumes "weight_capacity b \<noteq> 0" "n_items b \<le> length (weights b)"
    "n_items b = 0 \<longrightarrow> n_bins b = 0"
  shows "fst (build b) = None"
proof (cases "simplifications b")
  case False
  let ?s = "map (\<lambda>v. (v, None :: int option)) (variables (n_bins b) (n_items b))"
  have sd: "solution_dict b = (Inr ?s, b)" using False by (rule solution_dict_free)
  have "\<exists>md b2. docplex_model (b\<lparr>solution := Some ?s\<rparr>) = (Inr md, b2)"
    using docplex_model_free [of "b\<lparr>solution := Some ?s\<rparr>"] False assms by auto
  then obtain md b2 where "docplex_model (b\<lparr>solution := Some ?s\<rparr>) = (Inr md, b2)"
    by blast
  then show ?thesis by (simp add: build_def sd)
next
  case True
  let ?m = "\<lceil>(of_int (sum_list (weights b)) :: rat) / of_int (weight_capacity b)\<rceil>"
  let ?b1 = "b\<lparr>min_bins := Some ?m\<rparr>"
  show ?thesis
  proof (cases "n_bins b = 0")
    case nb: True
    let ?s = "map (\<lambda>v. (v, simplified ?m v)) [X 0 0]"
    have sd: "solution_dict b = (Inr ?s, ?b1)"
      using True assms(1) nb by (rule solution_dict_no_bins)
    have rows: "\<forall>i\<in>set (list_items (?b1\<lparr>solution := Some ?s\<rparr>)).
        \<forall>j<n_bins (?b1\<lparr>solution := Some ?s\<rparr>).
          X i j \<in> set (filter (\<lambda>v. simplified ?m v = None) [X 0 0]) \<and> X i j \<in> set [X 0 0]"
      using nb by simp
    have bins: "\<forall>j<n_bins (?b1\<lparr>solution := Some ?s\<rparr>).
        recordable (?b1\<lparr>solution := Some ?s\<rparr>) [X 0 0]
          (filter (\<lambda>v. simplified ?m v = None) [X 0 0]) j"
      using nb by simp
    have "\<exists>md b2. docplex_model (?b1\<lparr>solution := Some ?s\<rparr>) = (Inr md, b2)"
      using docplex_model_returns [of "?b1\<lparr>solution := Some ?s\<rparr>" "simplified ?m" "[X 0 0]",
          OF _ rows bins]
      by auto
    then obtain md b2 where "docplex_model (?b1\<lparr>solution := Some ?s\<rparr>) = (Inr md, b2)"
      by blast
    then show ?thesis by (simp add: build_def sd)
  next
    case nb: False
    then have pos: "0 < n_bins b" "0 < n_items b" using assms(3) by auto
    let ?s = "map (\<lambda>v. (v, simplified ?m v)) (variables (n_bins b) (n_items b))"
    have sd: "solution_dict b = (Inr ?s, ?b1)"
      using True assms(1) pos(2) pos(1) by (rule solution_dict_simplified)
    have "\<exists>md b2. docplex_model (?b1\<lparr>solution := Some ?s\<rparr>) = (Inr md, b2)"
      using docplex_model_simplified
        [of "?b1\<lparr>solution := Some ?s\<rparr>" ?m "variables (n_bins b) (n_items b)"]
        True assms pos
      by auto
    then obtain md b2 where "docplex_model (?b1\<lparr>solution := Some ?s\<rparr>) = (Inr md, b2)"
      by blast
    then show ?thesis by (simp add: build_def sd)
  qed
qed

lemma init_returns:
  assumes "cap \<noteq> 0"
  shows "fst (init ws cap pen bins simp meth) = None"
proof (cases "ws = []")
  case True
  then show ?thesis by (simp add: init_def)
next
  case False
  then show ?thesis using assms
    by (simp add: init_def Let_def build_succeeds)
qed


subsection \<open>Facts about the instances\<close>

lemma unbalanced_instance_fields:
  "cplex_model unbalanced_instance \<noteq> None"
  "penalty unbalanced_instance = Sequence [1, 2, 3]"
  "method unbalanced_instance = ''unbalanced''"
  unfolding unbalanced_instance_def by code_simp+

lemma slack_instance_init:
  "init [2, 3, 4] 5 (Sequence []) None True ''slack'' = (None, slack_instance)"
proof -
  have "fst (init [2, 3, 4] 5 (Sequence []) None True ''slack'') = None"
    by code_simp
  then show ?thesis by (simp add: slack_instance_def prod_eq_iff)
qed

lemma empty_instance_init:
  "init [] 0 (Sequence []) None True ''slack'' = (None, empty_instance)"
  by (simp add: empty_instance_def init_def)

lemma slack_instance_fields:
  "simplifications slack_instance" "weights slack_instance = [2, 3, 4]"
  "n_items slack_instance = 3" "n_bins slack_instance = 3"
  "weight_capacity slack_instance = 5"
  unfolding slack_instance_def by code_simp+


subsection \<open>Counting the violated constraints\<close>

lemma int_of_char_bit:
  "c = CHR ''0'' \<or> c = CHR ''1'' \<Longrightarrow> int_of_char c = Inr (if c = CHR ''1'' then 1 else 0)"
  by (auto simp: int_of_char_def)

lemma bits_of_bitstring:
  "bitstring sol \<Longrightarrow> comprehension int_of_char sol = Inr (map (bit_at sol) [0..<length sol])"
proof -
  assume b: "bitstring sol"
  have "comprehension int_of_char sol = Inr (map (\<lambda>c. if c = CHR ''1'' then 1 else 0) sol)"
    using b unfolding bitstring_def list_all_iff
    by (intro comprehension_Inr) (simp add: int_of_char_bit)
  also have "map (\<lambda>c. if c = CHR ''1'' then 1 else 0) sol = map (bit_at sol) [0..<length sol]"
    by (rule nth_equalityI) (simp_all add: bit_at_def)
  finally show ?thesis .
qed

lemma sum_list_update_product:
  "p < length vec \<Longrightarrow> length bits = length vec \<Longrightarrow>
   sum_list (map2 (*) (vec[p := w]) bits) =
   sum_list (map2 (*) vec bits) + (w - vec ! p) * bits ! (p::nat)"
  for vec bits :: "int list"
proof (induction vec arbitrary: p bits)
  case Nil
  then show ?case by simp
next
  case (Cons v vec)
  then obtain c bits' where bits: "bits = c # bits'" by (cases bits) auto
  show ?case
  proof (cases p)
    case 0
    then show ?thesis by (simp add: bits algebra_simps)
  next
    case (Suc q)
    then show ?thesis using Cons.prems Cons.IH [of q bits'] by (simp add: bits)
  qed
qed

lemma fold_update_nth_other:
  "q \<notin> fst ` set pws \<Longrightarrow> fold (\<lambda>(p, w) a. a[p := w]) pws vec ! q = vec ! q"
  by (induction pws arbitrary: vec) (auto split: prod.splits)

lemma length_fold_update [simp]:
  "length (fold (\<lambda>(p, w) a. a[p := w]) pws vec) = length vec"
  by (induction pws arbitrary: vec) (auto split: prod.splits)

lemma weighted_sum:
  fixes vec bits :: "int list"
  assumes "distinct (map fst pws)" "\<forall>p\<in>fst ` set pws. p < length vec \<and> vec ! p = 0"
    "length bits = length vec"
  shows "sum_list (map2 (*) (fold (\<lambda>(p, w) a. a[p := w]) pws vec) bits) =
         sum_list (map2 (*) vec bits) + (\<Sum>(p, w)\<leftarrow>pws. w * bits ! p)"
  using assms
proof (induction pws arbitrary: vec)
  case Nil
  then show ?case by simp
next
  case (Cons pw pws)
  obtain p w where pw: "pw = (p, w)" by (cases pw)
  have p: "p < length vec" "vec ! p = 0" using Cons.prems(2) pw by auto
  have fresh: "p \<notin> fst ` set pws" using Cons.prems(1) pw by (simp add: image_iff)
  have 1: "distinct (map fst pws)" using Cons.prems(1) by simp
  have 2: "\<forall>q\<in>fst ` set pws. q < length (vec[p := w]) \<and> vec[p := w] ! q = 0"
  proof
    fix q assume q: "q \<in> fst ` set pws"
    then have "q \<noteq> p" using fresh by blast
    moreover have "q < length vec \<and> vec ! q = 0" using Cons.prems(2) q by auto
    ultimately show "q < length (vec[p := w]) \<and> vec[p := w] ! q = 0" by simp
  qed
  have 3: "length bits = length (vec[p := w])" using Cons.prems(3) by simp
  show ?case
    using Cons.IH [OF 1 2 3] sum_list_update_product [OF p(1) Cons.prems(3), of w]
    by (simp add: pw p(2))
qed

lemma sum_list_zeros: "sum_list (map2 (*) (replicate n (0::int)) bits) = 0"
proof (induction n arbitrary: bits)
  case 0
  then show ?case by simp
next
  case (Suc n)
  then show ?case by (cases bits) simp_all
qed

lemma fold_scalar_pairs:
  "fold (\<lambda>p a. a[p := v]) ps vec = fold (\<lambda>(p, w) a. a[p := w]) (map (\<lambda>p. (p, v)) ps) vec"
  by (induction ps arbitrary: vec) simp_all


lemma fold_update_rows:
  "distinct js \<Longrightarrow> set js \<inter> fst ` set al = {} \<Longrightarrow>
   fold (\<lambda>j. AList.update j (g j)) js al = al @ map (\<lambda>j. (j, g j)) js"
proof (induction js arbitrary: al)
  case Nil
  then show ?case by simp
next
  case (Cons j js)
  have 1: "j \<notin> fst ` set al" using Cons.prems(2) by auto
  have 2: "set js \<inter> fst ` set (al @ [(j, g j)]) = {}"
    using Cons.prems by auto
  show ?case
    using Cons.IH [OF _ 2] Cons.prems(1) by (simp add: update_fresh [OF 1])
qed

lemma ineq_row_cong:
  "list_items b' = list_items b \<Longrightarrow> simplifications b' = simplifications b \<Longrightarrow>
   min_bins b' = min_bins b \<Longrightarrow> weight_capacity b' = weight_capacity b \<Longrightarrow>
   weights b' = weights b \<Longrightarrow> ineq_row created b' j = ineq_row created b j"
  by (simp add: ineq_row_def)

lemma build_simplified:
  assumes "simplifications b" "weight_capacity b \<noteq> 0" "0 < n_items b" "0 < n_bins b"
    "n_items b \<le> length (weights b)" "eq_constraints b = []" "ineq_constraints b = []"
  defines "m \<equiv> \<lceil>(of_int (sum_list (weights b)) :: rat) / of_int (weight_capacity b)\<rceil>"
  defines "created \<equiv> filter (\<lambda>v. simplified m v = None) (variables (n_bins b) (n_items b))"
  shows "\<exists>md. build b =
    (None,
     b\<lparr>min_bins := Some m,
       solution := Some (map (\<lambda>v. (v, simplified m v)) (variables (n_bins b) (n_items b))),
       vars_pos := Some (zip created [0..<length created]),
       eq_constraints := map (\<lambda>i. (i, eq_row created (n_bins b) i)) [1..<n_items b],
       ineq_constraints := map (\<lambda>j. (j, ineq_row created (b\<lparr>min_bins := Some m\<rparr>) j)) [0..<n_bins b],
       cplex_model := Some md,
       n_vars := Some (length created)\<rparr>)"
proof -
  let ?vs = "variables (n_bins b) (n_items b)"
  let ?s = "map (\<lambda>v. (v, simplified m v)) ?vs"
  let ?b1 = "b\<lparr>min_bins := Some m\<rparr>"
  let ?b2 = "?b1\<lparr>solution := Some ?s\<rparr>"
  have sd: "solution_dict b = (Inr ?s, ?b1)"
    unfolding m_def using assms(1,2,3,4) by (rule solution_dict_simplified)
  have "\<exists>md. docplex_model ?b2 =
      (Inr md,
       ?b2\<lparr>vars_pos := Some (zip created [0..<length created]),
         eq_constraints :=
           fold (\<lambda>i. AList.update i (eq_row created (n_bins ?b2) i)) (list_items ?b2)
             (eq_constraints ?b2),
         ineq_constraints :=
           fold (\<lambda>j. AList.update j (ineq_row created ?b2 j)) [0..<n_bins ?b2]
             (ineq_constraints ?b2)\<rparr>)
      \<and> binary_vars md = created"
    unfolding created_def
    using assms(1-5) by (intro docplex_model_simplified) simp_all
  then obtain md where dm: "docplex_model ?b2 =
      (Inr md,
       ?b2\<lparr>vars_pos := Some (zip created [0..<length created]),
         eq_constraints :=
           fold (\<lambda>i. AList.update i (eq_row created (n_bins ?b2) i)) (list_items ?b2)
             (eq_constraints ?b2),
         ineq_constraints :=
           fold (\<lambda>j. AList.update j (ineq_row created ?b2 j)) [0..<n_bins ?b2]
             (ineq_constraints ?b2)\<rparr>)"
    and bv: "binary_vars md = created" by blast
  have e: "fold (\<lambda>i. AList.update i (eq_row created (n_bins b) i)) (list_items b)
             (eq_constraints b) = map (\<lambda>i. (i, eq_row created (n_bins b) i)) [1..<n_items b]"
    using fold_update_rows [of "[1..<n_items b]" "[]" "eq_row created (n_bins b)"] assms(1,6)
    by (simp add: list_items_def del: One_nat_def)
  have i: "fold (\<lambda>j. AList.update j (ineq_row created ?b2 j)) [0..<n_bins b]
             (ineq_constraints b) = map (\<lambda>j. (j, ineq_row created ?b1 j)) [0..<n_bins b]"
    using fold_update_rows [of "[0..<n_bins b]" "[]" "ineq_row created ?b2"] assms(7)
    by (simp add: ineq_row_cong [of ?b2 ?b1])
  show ?thesis
    unfolding build_def sd
    by (rule exI [of _ md]) (simp add: dm e i bv number_of_binary_variables_def del: One_nat_def)
qed


lemma lhs_pairs:
  assumes "distinct (map fst pws)" "\<forall>p\<in>fst ` set pws. p < length sol" "bitstring sol"
  shows "left_hand_side (fold (\<lambda>(p, w) a. a[p := w]) pws (replicate (length sol) 0)) sol =
         Inr (\<Sum>(p, w)\<leftarrow>pws. w * bit_at sol p)"
proof -
  let ?bits = "map (bit_at sol) [0..<length sol]"
  let ?vec = "fold (\<lambda>(p, w) a. a[p := w]) pws (replicate (length sol) (0::int))"
  have z: "\<forall>p\<in>fst ` set pws. p < length (replicate (length sol) (0::int)) \<and>
             replicate (length sol) (0::int) ! p = 0"
    using assms(2) by simp
  have "sum_list (map2 (*) ?vec ?bits) =
        sum_list (map2 (*) (replicate (length sol) 0) ?bits) + (\<Sum>(p, w)\<leftarrow>pws. w * ?bits ! p)"
    by (rule weighted_sum [OF assms(1) z]) simp
  also have "(\<Sum>(p, w)\<leftarrow>pws. w * ?bits ! p) = (\<Sum>(p, w)\<leftarrow>pws. w * bit_at sol p)"
  proof -
    have "map (\<lambda>(p, w). w * ?bits ! p) pws = map (\<lambda>(p, w). w * bit_at sol p) pws"
      using assms(2) by (intro map_cong) (auto simp: image_iff)
    then show ?thesis by (rule arg_cong)
  qed
  finally have "sum_list (map2 (*) ?vec ?bits) = (\<Sum>(p, w)\<leftarrow>pws. w * bit_at sol p)"
    by (simp add: sum_list_zeros)
  then show ?thesis
    by (simp add: left_hand_side_def bits_of_bitstring [OF assms(3)] multiply_def)
qed

lemma check_loop_count:
  "(\<And>x c. x \<in> set xs \<Longrightarrow> body (f x) c = Inr (if V x then c + 1 else c)) \<Longrightarrow>
   check_loop body (map f xs) c = Inr (c + length (filter V xs))"
  by (induction xs arbitrary: c) simp_all

lemma enumerate_rows: "enumerate 0 (map f [0..<n]) = map (\<lambda>j. (j, f j)) [0..<n]"
  by (simp add: enumerate_eq_zip zip_map2 zip_same_conv_map)

lemma drop_one_nth: "drop 1 ws = map ((!) ws) [1..<length ws]"
  by (rule nth_equalityI) simp_all


lemma created_X:
  assumes "recorded_simplified b m created" "0 < i" "i < n_items b" "j < n_bins b"
  shows "X i j \<in> set created"
  using assms by (simp add: recorded_simplified_def set_variables)

lemma created_Y:
  assumes "recorded_simplified b m created" "j < n_bins b" "\<not> int j < m"
  shows "Y j \<in> set created"
  using assms by (simp add: recorded_simplified_def set_variables)

lemma value_in_created:
  assumes "recorded_simplified b m created" "v \<in> set created"
  shows "value_in b sol v = bit_at sol (position created v)"
  using assms map_of_zip_position [of v created 0]
  by (simp add: recorded_simplified_def value_in_def)

lemma distinct_positions:
  assumes "distinct ks" "inj_on f (set ks)" "f ` set ks \<subseteq> set created"
  shows "distinct (map (\<lambda>k. position created (f k)) ks)"
proof -
  have "inj_on (\<lambda>k. position created (f k)) (set ks)"
  proof (rule inj_onI)
    fix x y assume xy: "x \<in> set ks" "y \<in> set ks"
      and eq: "position created (f x) = position created (f y)"
    then have "f x = f y" using assms(3) by (intro position_inject [of _ created]) auto
    then show "x = y" using assms(2) xy by (auto dest: inj_onD)
  qed
  then show ?thesis using assms(1) by (simp add: distinct_map)
qed

lemma eq_check_counts:
  assumes r: "recorded_simplified b m created" and i: "0 < i" "i < n_items b"
    and sol: "bitstring sol" "length sol = length created"
  shows "eq_check b sol (eq_row created (n_bins b) i) c =
         Inr (if item_sum b sol i \<noteq> 1 then c + 1 else c)"
proof -
  let ?ps = "map (\<lambda>j. position created (X i j)) [0..<n_bins b]"
  have mem: "X i j \<in> set created" if "j < n_bins b" for j
    using created_X [OF r i that] .
  have less: "\<forall>p\<in>set ?ps. p < length sol"
    using mem position_less [of _ created] sol(2) by auto
  have d: "distinct ?ps"
    using mem by (intro distinct_positions) (auto simp: inj_on_def)
  have n: "n_vars b = Some (length sol)" using r sol(2) by (simp add: recorded_simplified_def)
  have a: "assign_scalar (replicate (length sol) 0) ?ps 1 =
           Inr (fold (\<lambda>(p, w) a. a[p := w]) (map (\<lambda>p. (p, 1)) ?ps) (replicate (length sol) 0))"
    using less unfolding assign_scalar_def fold_scalar_pairs
    by (simp add: list_ex_iff not_le)
  have "left_hand_side
          (fold (\<lambda>(p, w) a. a[p := w]) (map (\<lambda>p. (p, 1)) ?ps) (replicate (length sol) 0)) sol =
        Inr (\<Sum>(p, w)\<leftarrow>map (\<lambda>p. (p, 1)) ?ps. w * bit_at sol p)"
    using d less sol(1) by (intro lhs_pairs) (simp_all add: comp_def)
  also have "(\<Sum>(p, w)\<leftarrow>map (\<lambda>p. (p, 1)) ?ps. w * bit_at sol p) = item_sum b sol i"
  proof -
    have "map (\<lambda>j. bit_at sol (position created (X i j))) [0..<n_bins b] =
          map (\<lambda>j. value_in b sol (X i j)) [0..<n_bins b]"
      using mem value_in_created [OF r, of _ sol] by (intro map_cong) simp_all
    then have "(\<Sum>j\<leftarrow>[0..<n_bins b]. bit_at sol (position created (X i j))) =
               (\<Sum>j\<leftarrow>[0..<n_bins b]. value_in b sol (X i j))"
      by (rule arg_cong)
    moreover have "(\<Sum>(p, w)\<leftarrow>map (\<lambda>p. (p, 1)) ?ps. w * bit_at sol p) =
               (\<Sum>j\<leftarrow>[0..<n_bins b]. bit_at sol (position created (X i j)))"
      by (simp add: comp_def)
    ultimately show ?thesis by (simp only: item_sum_def)
  qed
  finally show ?thesis
    by (simp add: eq_check_def attribute_def n eq_row_def a index_def)
qed


lemma zip_rows: "zip (map f xs) (map g xs) = map (\<lambda>x. (f x, g x)) xs"
  by (induction xs) simp_all

lemma int_of_char_nth:
  "bitstring sol \<Longrightarrow> p < length sol \<Longrightarrow> int_of_char (sol ! p) = Inr (bit_at sol p)"
  unfolding bitstring_def list_all_iff bit_at_def
  using int_of_char_bit [of "sol ! p"] by auto

lemma ineq_sides_capacity:
  assumes r: "recorded_simplified b m created" and j: "j < n_bins b"
    and sol: "bitstring sol" "length sol = length created"
  shows "ineq_sides b sol j (ineq_row created b j) =
         Inr (drop 1 (weights b), bin_capacity b sol j)"
proof -
  have S: "simplifications b" and M: "min_bins b = Some m"
    using r by (simp_all add: recorded_simplified_def)
  show ?thesis
  proof (cases "int j < m")
    case True
    then show ?thesis
      by (simp add: S M ineq_sides_def ineq_row_def attribute_def index_def bin_capacity_def
          del: One_nat_def)
  next
    case False
    have y: "Y j \<in> set created" using created_Y [OF r j False] .
    then have p: "position created (Y j) < length sol" using position_less sol(2) by metis
    have v: "value_in b sol (Y j) = bit_at sol (position created (Y j))"
      using value_in_created [OF r y] .
    show ?thesis using False
      by (simp add: S M ineq_sides_def ineq_row_def attribute_def index_def
          bin_capacity_def p int_of_char_nth [OF sol(1) p] v del: One_nat_def)
  qed
qed

lemma ineq_check_counts:
  assumes r: "recorded_simplified b m created" and j: "j < n_bins b"
    and sol: "bitstring sol" "length sol = length created"
  shows "ineq_check b sol (j, ineq_row created b j) c =
         Inr (if bin_weight b sol j > bin_capacity b sol j then c + 1 else c)"
proof -
  let ?is = "[1..<n_items b]"
  let ?P = "\<lambda>i. position created (X i j)"
  let ?W = "\<lambda>i. weights b ! i"
  have li: "list_items b = ?is"
    using r by (simp add: recorded_simplified_def list_items_def del: One_nat_def)
  have "n_items b = length (weights b)" using r by (simp add: recorded_simplified_def)
  then have ws: "drop 1 (weights b) = map ?W ?is"
    using drop_one_nth [of "weights b"] by (simp del: One_nat_def)
  have mem: "X i j \<in> set created" if "i \<in> set ?is" for i
    using created_X [OF r _ _ j, of i] that by simp
  have less: "\<forall>p\<in>set (map ?P ?is). p < length sol"
    using mem position_less [of _ created] sol(2) by auto
  have d: "distinct (map ?P ?is)"
    using mem by (intro distinct_positions) (auto simp: inj_on_def)
  have n: "n_vars b = Some (length sol)" using r sol(2) by (simp add: recorded_simplified_def)
  have a: "assign (replicate (length sol) 0) (map ?P ?is) (map ?W ?is) =
           Inr (fold (\<lambda>(p, w) a. a[p := w]) (map (\<lambda>i. (?P i, ?W i)) ?is)
                  (replicate (length sol) 0))"
    using less unfolding assign_def zip_rows
    by (simp add: list_ex_iff not_le)
  have "left_hand_side
          (fold (\<lambda>(p, w) a. a[p := w]) (map (\<lambda>i. (?P i, ?W i)) ?is) (replicate (length sol) 0))
          sol =
        Inr (\<Sum>(p, w)\<leftarrow>map (\<lambda>i. (?P i, ?W i)) ?is. w * bit_at sol p)"
    using d less sol(1) by (intro lhs_pairs) (simp_all add: comp_def)
  also have "(\<Sum>(p, w)\<leftarrow>map (\<lambda>i. (?P i, ?W i)) ?is. w * bit_at sol p) = bin_weight b sol j"
  proof -
    have "map (\<lambda>i. ?W i * bit_at sol (?P i)) ?is = map (\<lambda>i. ?W i * value_in b sol (X i j)) ?is"
      using mem value_in_created [OF r, of _ sol] by (intro map_cong) simp_all
    then have "(\<Sum>i\<leftarrow>?is. ?W i * bit_at sol (?P i)) = (\<Sum>i\<leftarrow>?is. ?W i * value_in b sol (X i j))"
      by (rule arg_cong)
    moreover have "(\<Sum>(p, w)\<leftarrow>map (\<lambda>i. (?P i, ?W i)) ?is. w * bit_at sol p) =
                   (\<Sum>i\<leftarrow>?is. ?W i * bit_at sol (?P i))"
      by (simp add: comp_def)
    ultimately show ?thesis by (simp only: bin_weight_def li)
  qed
  finally have lh: "left_hand_side
          (fold (\<lambda>(p, w) a. a[p := w]) (map (\<lambda>i. (?P i, ?W i)) ?is) (replicate (length sol) 0))
          sol = Inr (bin_weight b sol j)" .
  have row: "fst (ineq_row created b j) = map ?P ?is"
    by (simp add: ineq_row_def li del: One_nat_def)
  show ?thesis
    by (simp add: ineq_check_def attribute_def n ineq_sides_capacity [OF r j sol] row ws a lh
        del: One_nat_def)
qed

lemma constraints_not_fulfilled_counts:
  assumes r: "recorded_simplified b m created"
    and sol: "bitstring sol" "length sol = length created"
  shows "constraints_not_fulfilled b sol = Inr (violated b sol)"
proof -
  have li: "list_items b = [1..<n_items b]"
    using r by (simp add: recorded_simplified_def list_items_def)
  have e: "map snd (eq_constraints b) = map (eq_row created (n_bins b)) [1..<n_items b]"
    using r by (simp add: recorded_simplified_def comp_def)
  have i: "enumerate 0 (map snd (ineq_constraints b)) =
           map (\<lambda>j. (j, ineq_row created b j)) [0..<n_bins b]"
    using r enumerate_rows [of "ineq_row created b" "n_bins b"]
    by (simp add: recorded_simplified_def comp_def)
  have 1: "check_loop (eq_check b sol) (map (eq_row created (n_bins b)) [1..<n_items b]) 0 =
           Inr (0 + length (filter (\<lambda>i. item_sum b sol i \<noteq> 1) [1..<n_items b]))"
    using eq_check_counts [OF r _ _ sol] by (intro check_loop_count) simp
  have 2: "check_loop (ineq_check b sol) (map (\<lambda>j. (j, ineq_row created b j)) [0..<n_bins b]) c =
           Inr (c + length (filter (\<lambda>j. bin_weight b sol j > bin_capacity b sol j) [0..<n_bins b]))"
    for c
    using ineq_check_counts [OF r _ sol] by (intro check_loop_count) simp
  show ?thesis
    unfolding constraints_not_fulfilled_def e i 1 by (simp add: 2 violated_def li)
qed


lemma build_recorded_simplified:
  assumes "simplifications b" "weight_capacity b \<noteq> 0" "0 < n_items b" "0 < n_bins b"
    "n_items b = length (weights b)" "eq_constraints b = []" "ineq_constraints b = []"
  shows "fst (build b) = None \<and>
    recorded_simplified (snd (build b))
      \<lceil>(of_int (sum_list (weights b)) :: rat) / of_int (weight_capacity b)\<rceil>
      (filter (\<lambda>v. simplified \<lceil>(of_int (sum_list (weights b)) :: rat) / of_int (weight_capacity b)\<rceil> v = None)
         (variables (n_bins b) (n_items b)))"
proof -
  have le: "n_items b \<le> length (weights b)" using assms(5) by simp
  from build_simplified [OF assms(1-4) le assms(6,7)]
  obtain md where bd: "build b =
    (None,
     b\<lparr>min_bins := Some \<lceil>(of_int (sum_list (weights b)) :: rat) / of_int (weight_capacity b)\<rceil>,
       solution := Some (map (\<lambda>v. (v, simplified \<lceil>(of_int (sum_list (weights b)) :: rat) / of_int (weight_capacity b)\<rceil> v))
                           (variables (n_bins b) (n_items b))),
       vars_pos := Some (zip (filter (\<lambda>v. simplified \<lceil>(of_int (sum_list (weights b)) :: rat) / of_int (weight_capacity b)\<rceil> v = None)
                                 (variables (n_bins b) (n_items b)))
                            [0..<length (filter (\<lambda>v. simplified \<lceil>(of_int (sum_list (weights b)) :: rat) / of_int (weight_capacity b)\<rceil> v = None)
                                 (variables (n_bins b) (n_items b)))]),
       eq_constraints := map (\<lambda>i. (i, eq_row (filter (\<lambda>v. simplified \<lceil>(of_int (sum_list (weights b)) :: rat) / of_int (weight_capacity b)\<rceil> v = None)
                                 (variables (n_bins b) (n_items b))) (n_bins b) i)) [1..<n_items b],
       ineq_constraints := map (\<lambda>j. (j, ineq_row (filter (\<lambda>v. simplified \<lceil>(of_int (sum_list (weights b)) :: rat) / of_int (weight_capacity b)\<rceil> v = None)
                                 (variables (n_bins b) (n_items b)))
                               (b\<lparr>min_bins := Some \<lceil>(of_int (sum_list (weights b)) :: rat) / of_int (weight_capacity b)\<rceil>\<rparr>) j))
                             [0..<n_bins b],
       cplex_model := Some md,
       n_vars := Some (length (filter (\<lambda>v. simplified \<lceil>(of_int (sum_list (weights b)) :: rat) / of_int (weight_capacity b)\<rceil> v = None)
                                 (variables (n_bins b) (n_items b))))\<rparr>)"
    by blast
  show ?thesis
    unfolding bd using assms(1,3,5)
    by (simp add: recorded_simplified_def ineq_row_def list_items_def del: One_nat_def)
qed

lemma build_n_bins: "n_bins (snd (build b)) = n_bins b"
proof -
  obtain r b1 where sd: "solution_dict b = (r, b1)" by (cases "solution_dict b")
  have n1: "n_bins b1 = n_bins b" using solution_dict_state [of b] sd by auto
  show ?thesis
  proof (cases r)
    case (Inl e)
    then show ?thesis using sd n1 by (simp add: build_def)
  next
    case (Inr s)
    obtain r2 b2 where dm: "docplex_model (b1\<lparr>solution := Some s\<rparr>) = (r2, b2)"
      by (cases "docplex_model (b1\<lparr>solution := Some s\<rparr>)")
    have "n_bins b2 = n_bins b1"
      using docplex_model_fields(5) [of "b1\<lparr>solution := Some s\<rparr>"] dm by simp
    then show ?thesis using sd Inr dm n1 by (cases r2) (simp_all add: build_def)
  qed
qed

lemma check_loop_raises:
  "xs \<noteq> [] \<Longrightarrow> (\<And>x c. \<exists>e. body x c = Inl e) \<Longrightarrow> \<exists>e. check_loop body xs c = Inl e"
  by (cases xs) (auto split: sum.splits, metis sum.simps(4) Inl_Inr_False)

subsection \<open>The loop that builds the random problems\<close>


subsection \<open>Facts about the example libraries\<close>




subsection \<open>The claims\<close>

text \<open>
  C2, as amended. For an instance whose docplex model has been built and whose penalty
  is a list: with method \<open>"slack"\<close> the converter is called with \<open>multipliers = self.penalty\<close>,
  and with method \<open>"unbalanced"\<close> with \<open>unbalanced_const = True\<close>,
  \<open>multipliers = self.penalty[0]\<close> and \<open>strength_ineq = self.penalty[1:]\<close>; when the list
  is empty the multipliers and strengths are left to the converter's defaults. The result
  is what the converter gives for that call.
\<close>

theorem get_qubo_problem_arguments:
  assumes "cplex_model b = Some m" "penalty b = Sequence ps"
  shows "(method b = ''slack'' \<longrightarrow>
            get_qubo_problem ising_model b =
              ising_model \<lparr>mdl = m,
                multipliers = (if ps = [] then None else Some (Sequence ps)),
                unbalanced_const = None, strength_ineq = None\<rparr>)
       \<and> (method b = ''unbalanced'' \<longrightarrow>
            get_qubo_problem ising_model b =
              ising_model \<lparr>mdl = m,
                multipliers = (if ps = [] then None else Some (Number (hd ps))),
                unbalanced_const = Some True,
                strength_ineq = (if ps = [] then None else Some (Sequence (tl ps)))\<rparr>)"
  using assms by (simp add: get_qubo_problem_def attribute_def)

theorem get_qubo_problem_arguments_witness:
  "cplex_model unbalanced_instance = Some (the (cplex_model unbalanced_instance)) \<and>
   penalty unbalanced_instance = Sequence [1, 2, 3] \<and>
   method unbalanced_instance = ''unbalanced'' \<and>
   get_qubo_problem Inr unbalanced_instance =
     Inr \<lparr>mdl = the (cplex_model unbalanced_instance), multipliers = Some (Number 1),
          unbalanced_const = Some True, strength_ineq = Some (Sequence [2, 3])\<rparr>"
proof -
  have m: "cplex_model unbalanced_instance = Some (the (cplex_model unbalanced_instance))"
    using unbalanced_instance_fields(1) by simp
  show ?thesis
    using get_qubo_problem_arguments [OF m unbalanced_instance_fields(2), of Inr]
      m unbalanced_instance_fields(2,3)
    by simp
qed

text \<open>
  C2 as stated fails: the constructor takes any method, and for an instance with a built
  model and a method that is neither \<open>"slack"\<close> nor \<open>"unbalanced"\<close> no branch assigns
  \<open>qubo\<close>, so \<open>get_qubo_problem\<close> raises UnboundLocalError instead of returning an encoding.
\<close>

theorem get_qubo_problem_other_method:
  "cplex_model other_instance \<noteq> None \<and> penalty other_instance = Sequence [] \<and>
   get_qubo_problem (Inr :: converter_call \<Rightarrow> error + converter_call) other_instance =
     Inl UnboundLocalError"
  unfolding other_instance_def by code_simp

text \<open>
  C3. The claim has \<open>constraints_not_fulfilled\<close> return the number of violated recorded
  constraints for every instance with a built model. On an instance built without
  simplifications the loop over the inequality constraints indexes the solution string
  with the list \<open>constraint[1]\<close> where the branch for simplifications reads
  \<open>constraint[1][0]\<close>: for the two items of weight 2 and 3, bins of capacity 5, and the
  bitstring that puts item 0 in bin 0 and item 1 in bin 1, which violates no constraint,
  the method raises TypeError.
\<close>

theorem constraints_not_fulfilled_without_simplifications:
  "constraints_not_fulfilled (snd (init [2, 3] 5 (Sequence []) None False ''slack''))
     ''111001'' = Inl TypeError"
  by code_simp

text \<open>
  The defect is in the branch without simplifications only. There the method returns no
  count for any argument, as soon as one inequality constraint is recorded.
\<close>

lemma constraints_not_fulfilled_raises:
  assumes "\<not> simplifications b" "ineq_constraints b \<noteq> []"
  shows "\<exists>e. constraints_not_fulfilled b sol = Inl e"
proof -
  have body: "\<exists>e. ineq_check b sol x c = Inl e" for x c
    using assms(1)
    by (cases x) (auto simp: ineq_check_def ineq_sides_def attribute_def split: option.splits)
  have ne: "enumerate 0 (map snd (ineq_constraints b)) \<noteq> []"
    using assms(2) by (simp add: enumerate_eq_zip)
  show ?thesis
  proof (cases "check_loop (eq_check b sol) (map snd (eq_constraints b)) 0")
    case (Inl e)
    then show ?thesis by (simp add: constraints_not_fulfilled_def)
  next
    case (Inr c)
    then show ?thesis
      using check_loop_raises [OF ne body, where c = c]
      by (simp add: constraints_not_fulfilled_def)
  qed
qed

text \<open>
  With simplifications the method counts as the claim says: on an instance that the
  constructor returned for non-empty weights and at least one bin, and for every bitstring
  of length \<open>n_vars\<close>, it returns the number of violated constraints.
\<close>

lemma constraints_not_fulfilled_simplified:
  assumes "init ws cap pen bins True meth = (None, b)" "ws \<noteq> []" "0 < n_bins b"
    "bitstring sol" "n_vars b = Some (length sol)"
  shows "constraints_not_fulfilled b sol = Inr (violated b sol)"
proof -
  let ?b0 = "\<lparr>weights = ws, weight_capacity = cap, penalty = pen, n_items = length ws,
               n_bins = (case bins of None \<Rightarrow> length ws | Some n \<Rightarrow> n),
               method = meth, simplifications = True,
               eq_constraints = [], ineq_constraints = [], min_bins = None,
               solution = None, vars_pos = None, cplex_model = None, n_vars = None\<rparr>"
  have i: "init ws cap pen bins True meth = build ?b0"
    using assms(2) by (simp add: init_def)
  have c: "cap \<noteq> 0"
  proof
    assume "cap = 0"
    then have "fst (build ?b0) \<noteq> None"
      by (simp add: build_def solution_dict_def compute_min_bins_def)
    then show False using assms(1) i by simp
  qed
  have b: "b = snd (build ?b0)" using assms(1) i by simp
  have nb: "n_bins b = n_bins ?b0" unfolding b by (rule build_n_bins)
  have r: "recorded_simplified b
      \<lceil>(of_int (sum_list (weights ?b0)) :: rat) / of_int (weight_capacity ?b0)\<rceil>
      (filter (\<lambda>v. simplified \<lceil>(of_int (sum_list (weights ?b0)) :: rat) / of_int (weight_capacity ?b0)\<rceil> v = None)
         (variables (n_bins ?b0) (n_items ?b0)))"
    unfolding b using assms(2,3) c nb
    by (intro build_recorded_simplified [THEN conjunct2]) simp_all
  then have "n_vars b = Some (length (filter (\<lambda>v. simplified \<lceil>(of_int (sum_list (weights ?b0)) :: rat) / of_int (weight_capacity ?b0)\<rceil> v = None)
         (variables (n_bins ?b0) (n_items ?b0))))"
    by (simp add: recorded_simplified_def)
  then have l: "length sol = length (filter (\<lambda>v. simplified \<lceil>(of_int (sum_list (weights ?b0)) :: rat) / of_int (weight_capacity ?b0)\<rceil> v = None)
         (variables (n_bins ?b0) (n_items ?b0)))"
    using assms(5) by simp
  show ?thesis using r assms(4) l by (rule constraints_not_fulfilled_counts)
qed

lemma constraints_not_fulfilled_simplified_example:
  "constraints_not_fulfilled slack_instance ''0100001'' = Inr (violated slack_instance ''0100001'')
   \<and> violated slack_instance ''0100001'' = 1"
proof -
  have n: "n_vars slack_instance = Some (length ''0100001'')"
    unfolding slack_instance_def by code_simp
  have b: "bitstring ''0100001''" by (simp add: bitstring_def)
  have "constraints_not_fulfilled slack_instance ''0100001'' = Inr (violated slack_instance ''0100001'')"
    using slack_instance_init _ _ b n
    by (rule constraints_not_fulfilled_simplified) (simp_all add: slack_instance_fields)
  moreover have "constraints_not_fulfilled slack_instance ''0100001'' = Inr 1"
    unfolding slack_instance_def by code_simp
  ultimately show ?thesis by simp
qed









text \<open>
  C9, as amended. Take an instance that the constructor returned and any sequence of calls
  of \<open>random_instance\<close> on it. The attributes \<open>solution\<close>, \<open>cplex_model\<close> and \<open>n_vars\<close> all
  exist exactly when the constructor was given a non-empty weights list or one of the calls
  returned without raising; in particular an instance constructed with empty weights and
  not touched since has none of them. Whenever \<open>cplex_model\<close> exists, \<open>n_vars\<close> is the
  number of binary variables of that model.
\<close>

theorem attributes_exist:
  assumes "init ws cap pen bins simp meth = (None, b0)"
  shows "(ws = [] \<longrightarrow> solution b0 = None \<and> cplex_model b0 = None \<and> n_vars b0 = None) \<and>
         (built (after_calls rng b0 cs) \<longleftrightarrow> ws \<noteq> [] \<or> some_call_returned rng b0 cs) \<and>
         (\<forall>m. cplex_model (after_calls rng b0 cs) = Some m \<longrightarrow>
              n_vars (after_calls rng b0 cs) = Some (number_of_binary_variables m))"
proof -
  have e0: "ws = [] \<longrightarrow> solution b0 = None \<and> cplex_model b0 = None \<and> n_vars b0 = None"
    using assms by (auto simp: init_def)
  have c0: "consistent b0" and m0: "cplex_model b0 \<noteq> None \<longleftrightarrow> ws \<noteq> []"
    using init_consistent [OF assms] by simp_all
  have c: "consistent (after_calls rng b0 cs)"
    and m: "cplex_model (after_calls rng b0 cs) \<noteq> None \<longleftrightarrow>
            cplex_model b0 \<noteq> None \<or> some_call_returned rng b0 cs"
    using after_calls_consistent [OF c0, of rng cs] by simp_all
  show ?thesis using consistent_built [OF c] m m0 c e0
    by (auto simp: consistent_def)
qed

theorem attributes_exist_witness:
  "init [] 0 (Sequence []) None True ''slack'' = (None, empty_instance) \<and>
   solution empty_instance = None \<and> cplex_model empty_instance = None \<and>
   n_vars empty_instance = None \<and>
   built (after_calls lowest_draws empty_instance [raising_call, returning_call]) \<and>
   n_vars (after_calls lowest_draws empty_instance [raising_call, returning_call]) =
     Some (number_of_binary_variables
       (the (cplex_model (after_calls lowest_draws empty_instance [raising_call, returning_call]))))"
proof -
  have r: "some_call_returned lowest_draws empty_instance [raising_call, returning_call]"
    unfolding empty_instance_def by code_simp
  have e: "after_calls lowest_draws empty_instance [] = empty_instance" by simp
  show ?thesis
    using attributes_exist [OF empty_instance_init, of lowest_draws "[raising_call, returning_call]"]
      attributes_exist [OF empty_instance_init, of lowest_draws "[]"]
      r empty_instance_init
    by (auto simp: built_def)
qed

text \<open>
  C9 as stated fails: on an instance constructed with empty weights, a call of
  \<open>random_instance\<close> with \<open>min_weight = max_weight\<close> raises, and after it the attributes
  still do not exist although \<open>random_instance\<close> has been called on the instance.
\<close>

theorem attributes_exist_counterexample:
  "\<not> built (after_calls lowest_draws empty_instance [raising_call])"
  unfolding empty_instance_def by code_simp

text \<open>
  C10. With simplifications set and a weight capacity of 0, \<open>solution_dict\<close> returns no
  dictionary: the computation of \<open>min_bins\<close> raises (ValueError when the weights sum to 0,
  OverflowError otherwise) and leaves the instance as it was. Hence constructing an
  instance with non-empty weights, weight capacity 0 and simplifications raises too, before
  \<open>solution\<close> is assigned.
\<close>

theorem weight_capacity_zero:
  "(simplifications b \<and> weight_capacity b = 0 \<longrightarrow>
      solution_dict b =
        (Inl (if sum_list (weights b) = 0 then ValueError else OverflowError), b))
   \<and> (ws \<noteq> [] \<longrightarrow>
        fst (init ws 0 pen bins True meth) =
          Some (if sum_list ws = 0 then ValueError else OverflowError) \<and>
        solution (snd (init ws 0 pen bins True meth)) = None)"
  by (auto simp: solution_dict_def init_def build_def compute_min_bins_def Let_def)

theorem weight_capacity_zero_witness:
  "simplifications (slack_instance\<lparr>weight_capacity := 0\<rparr>) \<and>
   weight_capacity (slack_instance\<lparr>weight_capacity := 0\<rparr>) = 0 \<and>
   solution_dict (slack_instance\<lparr>weight_capacity := 0\<rparr>) =
     (Inl OverflowError, slack_instance\<lparr>weight_capacity := 0\<rparr>) \<and>
   [2, 3, 4] \<noteq> ([] :: int list) \<and>
   fst (init [2, 3, 4] 0 (Sequence []) None True ''slack'') = Some OverflowError"
  using weight_capacity_zero [of "slack_instance\<lparr>weight_capacity := 0\<rparr>" "[2, 3, 4]"
      "Sequence []" None "''slack''"]
    slack_instance_fields
  by simp

end
